theory Spec2Isabelle
  imports
    Complex_Main
    "HOL-Library.Char_ord"
    "HOL-Library.List_Lexorder"
    "HOL-Library.Product_Lexorder"
begin

chapter \<open>vivacitypy: request batching, count aggregation and sensor-name parsing\<close>

text \<open>
  A shallow embedding of \<^verbatim>\<open>src/vivacitypy/client.py\<close> and
  \<^verbatim>\<open>src/vivacitypy/utils.py\<close>. Python lists are HOL lists, \<^verbatim>\<open>None\<close> is
  \<open>None\<close> of an option type, a raised exception is the \<open>Inl\<close> branch of a sum, and a loop
  that may run forever is a \<^theory_text>\<open>partial_function\<close> whose result \<open>None\<close> means that the call
  does not return.
\<close>

section \<open>The embedding\<close>

subsection \<open>Date batching (\<^verbatim>\<open>client.py\<close>, \<^verbatim>\<open>batch_date_range\<close>)\<close>

text \<open>
  A \<^verbatim>\<open>datetime\<close> is the number of microseconds since \<^verbatim>\<open>datetime.min\<close>
  (0001-01-01T00:00:00), both arguments naive or both in one time zone. The type is bounded:
  \<^verbatim>\<open>datetime.max\<close> is 9999-12-31T23:59:59.999999, the last microsecond of day number
  3652059, and an addition that leaves the range raises \<^verbatim>\<open>OverflowError\<close>.
  \<^verbatim>\<open>timedelta(days=n)\<close> raises \<^verbatim>\<open>OverflowError\<close> when \<open>n\<close> has a magnitude
  above 999999999.
\<close>

datatype py_error = OverflowError

type_synonym datetime = int

definition us_per_day :: int where
  "us_per_day = 86400000000"

definition datetime_max :: datetime where
  "datetime_max = 3652059 * us_per_day - 1"

definition valid_datetime :: "datetime \<Rightarrow> bool" where
  "valid_datetime t = (0 \<le> t \<and> t \<le> datetime_max)"

definition timedelta_days :: "int \<Rightarrow> py_error + int" where
  "timedelta_days n =
     (if 999999999 < \<bar>n\<bar> then Inl OverflowError else Inr (n * us_per_day))"

definition datetime_add :: "datetime \<Rightarrow> int \<Rightarrow> py_error + datetime" where
  "datetime_add t d = (if valid_datetime (t + d) then Inr (t + d) else Inl OverflowError)"

text \<open>The dictionary \<^verbatim>\<open>{"from": current, "to": batch_end}\<close>.\<close>

record date_batch =
  batch_from :: datetime
  batch_to :: datetime

text \<open>
  The \<^verbatim>\<open>while current < to_date\<close> loop, with the list \<^verbatim>\<open>batches\<close> as an
  accumulator. With \<^verbatim>\<open>max_days = 0\<close> the loop never ends, so the function is partial:
  \<open>None\<close> is a call that does not return, \<open>Some (Inl e)\<close> one that raises \<open>e\<close>.
\<close>

partial_function (option) batch_loop ::
  "int \<Rightarrow> datetime \<Rightarrow> datetime \<Rightarrow> date_batch list \<Rightarrow> (py_error + date_batch list) option"
where
  "batch_loop max_days to_date current batches =
     (if current < to_date then
        (case timedelta_days max_days of
           Inl e \<Rightarrow> Some (Inl e)
         | Inr td \<Rightarrow>
             (case datetime_add current td of
                Inl e \<Rightarrow> Some (Inl e)
              | Inr s \<Rightarrow>
                  (let batch_end = min s to_date
                   in batch_loop max_days to_date batch_end
                        (batches @ [\<lparr>batch_from = current, batch_to = batch_end\<rparr>]))))
      else Some (Inr batches))"

declare batch_loop.simps [code]

definition batch_date_range ::
  "datetime \<Rightarrow> datetime \<Rightarrow> int \<Rightarrow> (py_error + date_batch list) option" where
  "batch_date_range from_date to_date max_days = batch_loop max_days to_date from_date []"

text \<open>
  What it means for a list of batches to tile the interval from \<open>a\<close> to \<open>b\<close> with pieces
  of at most \<open>width\<close>: each batch starts where the previous one ended, is not empty and is
  no longer than \<open>width\<close>.
\<close>

fun tiling :: "int \<Rightarrow> datetime \<Rightarrow> date_batch list \<Rightarrow> datetime \<Rightarrow> bool" where
  "tiling width a [] b = (a = b)"
| "tiling width a (x # xs) b =
     (batch_from x = a \<and> a < batch_to x \<and> batch_to x - a \<le> width
      \<and> tiling width (batch_to x) xs b)"

subsection \<open>Identifier batching (\<^verbatim>\<open>client.py\<close>, line 187)\<close>

text \<open>
  \<^verbatim>\<open>range(start, stop, step)\<close> for a positive step, as the list of its values.
\<close>

function range_step :: "nat \<Rightarrow> nat \<Rightarrow> nat \<Rightarrow> nat list" where
  "range_step i stop step =
     (if 0 < step \<and> i < stop then i # range_step (i + step) stop step else [])"
  by pat_completeness auto
termination
  by (relation "measure (\<lambda>(i, stop, step). stop - i)") auto

declare range_step.simps [simp del]

text \<open>
  The slice \<^verbatim>\<open>xs[i:j]\<close> for \<open>0 \<le> i \<le> j\<close>: Python clips both ends to the length of the
  list, as \<open>take\<close> and \<open>drop\<close> do.
\<close>

definition slice :: "'a list \<Rightarrow> nat \<Rightarrow> nat \<Rightarrow> 'a list" where
  "slice xs i j = take (j - i) (drop i xs)"

text \<open>
  \<^verbatim>\<open>id_batches = [countline_ids[i:i + 50] for i in range(0, len(countline_ids), 50)]\<close>
\<close>

definition id_batches :: "string list \<Rightarrow> string list list" where
  "id_batches countline_ids =
     map (\<lambda>i. slice countline_ids i (i + 50)) (range_step 0 (length countline_ids) 50)"

subsection \<open>Strings (\<^verbatim>\<open>utils.py\<close>)\<close>

text \<open>
  Sensor names are ASCII strings; a character is its code, \<^verbatim>\<open>ord(c)\<close>. On ASCII
  \<^verbatim>\<open>[a-z]\<close>, \<^verbatim>\<open>[A-Z]\<close> and \<^verbatim>\<open>\d\<close> are the three ranges below, and the
  whitespace of \<^verbatim>\<open>str.split()\<close> is the tab, the line feed, the vertical tab, the form
  feed, the carriage return, the four separators \<^verbatim>\<open>\x1c\<close> to \<^verbatim>\<open>\x1f\<close> and the
  space.
\<close>

definition ord :: "char \<Rightarrow> nat" where
  "ord c = of_char c"

definition is_lower :: "char \<Rightarrow> bool" where
  "is_lower c = (97 \<le> ord c \<and> ord c \<le> 122)"

definition is_upper :: "char \<Rightarrow> bool" where
  "is_upper c = (65 \<le> ord c \<and> ord c \<le> 90)"

definition is_digit :: "char \<Rightarrow> bool" where
  "is_digit c = (48 \<le> ord c \<and> ord c \<le> 57)"

definition is_space :: "char \<Rightarrow> bool" where
  "is_space c = ((9 \<le> ord c \<and> ord c \<le> 13) \<or> (28 \<le> ord c \<and> ord c \<le> 32))"

definition lower_char :: "char \<Rightarrow> char" where
  "lower_char c = (if is_upper c then char_of (ord c + 32) else c)"

definition upper_char :: "char \<Rightarrow> char" where
  "upper_char c = (if is_lower c then char_of (ord c - 32) else c)"

text \<open>\<^verbatim>\<open>s.lower()\<close> and \<^verbatim>\<open>s.upper()\<close>.\<close>

definition lower :: "string \<Rightarrow> string" where
  "lower s = map lower_char s"

definition upper :: "string \<Rightarrow> string" where
  "upper s = map upper_char s"

text \<open>\<^verbatim>\<open>s.capitalize()\<close>: the first character in upper case, the rest in lower case.\<close>

fun capitalize :: "string \<Rightarrow> string" where
  "capitalize [] = []"
| "capitalize (c # cs) = upper_char c # map lower_char cs"

text \<open>
  \<^verbatim>\<open>s.split(sep)\<close> for a one-character separator is \<open>split_by (\<lambda>c. c = sep) s\<close>: the
  pieces between the separators, empty pieces included. \<^verbatim>\<open>s.split()\<close> splits at
  whitespace and drops the empty pieces. \<^verbatim>\<open>s.split(sep, 1)\<close> splits at the first
  separator only.
\<close>

fun split_by :: "(char \<Rightarrow> bool) \<Rightarrow> string \<Rightarrow> string list" where
  "split_by P [] = [[]]"
| "split_by P (c # cs) =
     (if P c then [] # split_by P cs
      else (case split_by P cs of
              [] \<Rightarrow> [[c]]
            | w # ws \<Rightarrow> (c # w) # ws))"

definition split_on :: "char \<Rightarrow> string \<Rightarrow> string list" where
  "split_on sep s = split_by (\<lambda>c. c = sep) s"

definition split_ws :: "string \<Rightarrow> string list" where
  "split_ws s = filter (\<lambda>w. w \<noteq> []) (split_by is_space s)"

definition split_first :: "char \<Rightarrow> string \<Rightarrow> string list" where
  "split_first sep s =
     (if sep \<in> set s
      then [takeWhile (\<lambda>c. c \<noteq> sep) s, tl (dropWhile (\<lambda>c. c \<noteq> sep) s)]
      else [s])"

text \<open>\<^verbatim>\<open>sep.join(words)\<close>.\<close>

fun join :: "string \<Rightarrow> string list \<Rightarrow> string" where
  "join sep [] = []"
| "join sep [w] = w"
| "join sep (w # v # ws) = w @ sep @ join sep (v # ws)"

text \<open>\<^verbatim>\<open>needle in haystack\<close> on strings.\<close>

fun starts_with :: "string \<Rightarrow> string \<Rightarrow> bool" where
  "starts_with [] s = True"
| "starts_with (p # ps) [] = False"
| "starts_with (p # ps) (c # cs) = (p = c \<and> starts_with ps cs)"

fun contains :: "string \<Rightarrow> string \<Rightarrow> bool" where
  "contains needle [] = starts_with needle []"
| "contains needle (c # cs) = (starts_with needle (c # cs) \<or> contains needle cs)"

subsection \<open>Road-name formatting (\<^verbatim>\<open>utils.py\<close>, \<^verbatim>\<open>format_road_name\<close>)\<close>

text \<open>
  \<^verbatim>\<open>re.sub(r'([a-z])([A-Z])', r'\1 \2', s)\<close>: the scan goes from left to right, and after
  a match it goes on behind the upper-case letter.
\<close>

fun sub_lower_upper :: "string \<Rightarrow> string" where
  "sub_lower_upper (a # b # cs) =
     (if is_lower a \<and> is_upper b then a # CHR '' '' # b # sub_lower_upper cs
      else a # sub_lower_upper (b # cs))"
| "sub_lower_upper cs = cs"

text \<open>\<^verbatim>\<open>re.sub(r'(\d)([A-Z])', r'\1 \2', s)\<close>.\<close>

fun sub_digit_upper :: "string \<Rightarrow> string" where
  "sub_digit_upper (a # b # cs) =
     (if is_digit a \<and> is_upper b then a # CHR '' '' # b # sub_digit_upper cs
      else a # sub_digit_upper (b # cs))"
| "sub_digit_upper cs = cs"

definition road_type_abbrevs :: "(string \<times> string) list" where
  "road_type_abbrevs =
     [(''st'', ''Street''),
      (''ln'', ''Lane''),
      (''rd'', ''Road''),
      (''ave'', ''Avenue''),
      (''dr'', ''Drive''),
      (''ct'', ''Court''),
      (''pl'', ''Place''),
      (''cres'', ''Crescent''),
      (''cr'', ''Crescent''),
      (''gr'', ''Grove''),
      (''pk'', ''Park''),
      (''sq'', ''Square''),
      (''terr'', ''Terrace''),
      (''jnt'', ''Junction''),
      (''way'', ''Way'')]"

text \<open>
  The block \<^verbatim>\<open>if words: ...\<close>: the last word is replaced when its lower-case form is a
  key of the table.
\<close>

definition expand_last :: "string list \<Rightarrow> string list" where
  "expand_last words =
     (if words \<noteq> [] then
        (let last_word = lower (last words)
         in case map_of road_type_abbrevs last_word of
              Some full \<Rightarrow> butlast words @ [full]
            | None \<Rightarrow> words)
      else words)"

definition format_road_name :: "string \<Rightarrow> string" where
  "format_road_name camel_case =
     (if camel_case = [] then camel_case
      else
        (let result = sub_lower_upper camel_case;
             result = sub_digit_upper result;
             words = split_ws result;
             words = expand_last words
         in join '' '' (map capitalize words)))"

text \<open>
  The words of a road name after the two space insertions, before the last one is expanded;
  and what a word is: not empty and without whitespace.
\<close>

definition spaced_words :: "string \<Rightarrow> string list" where
  "spaced_words camel_case = split_ws (sub_digit_upper (sub_lower_upper camel_case))"

definition is_word :: "string \<Rightarrow> bool" where
  "is_word w = (w \<noteq> [] \<and> list_all (\<lambda>c. \<not> is_space c) w)"

subsection \<open>Sensor-name parsing (\<^verbatim>\<open>utils.py\<close>, \<^verbatim>\<open>extract_camera_id\<close>)\<close>

text \<open>
  \<^verbatim>\<open>re.match(r'^[Ss]\d+$', s)\<close>: an \<^verbatim>\<open>S\<close> or \<^verbatim>\<open>s\<close> and one or more digits;
  \<^verbatim>\<open>$\<close> also matches before a line feed that ends the string.
\<close>

definition match_cordon :: "string \<Rightarrow> bool" where
  "match_cordon s =
     (case s of
        [] \<Rightarrow> False
      | c # rest \<Rightarrow>
          (c = CHR ''S'' \<or> c = CHR ''s'')
          \<and> (let ds = (if rest \<noteq> [] \<and> last rest = CHR 0x0A then butlast rest else rest)
             in ds \<noteq> [] \<and> list_all is_digit ds))"

text \<open>
  \<^verbatim>\<open>re.sub(r'[nsew]$', '', s)\<close>: one compass letter at the end of the string, or before
  a line feed that ends the string, is removed.
\<close>

definition is_compass :: "char \<Rightarrow> bool" where
  "is_compass c = (c \<in> set ''nsew'')"

definition sub_trailing_compass :: "string \<Rightarrow> string" where
  "sub_trailing_compass s =
     (if s \<noteq> [] \<and> is_compass (last s) then butlast s
      else if 2 \<le> length s \<and> last s = CHR 0x0A \<and> is_compass (last (butlast s))
      then butlast (butlast s) @ [CHR 0x0A]
      else s)"

definition segment_indicators :: "string list" where
  "segment_indicators = [''_road'', ''_path'', ''_cyclepath'', ''_cyclelane'', ''_buslan'']"

definition counter_type_of :: "string \<Rightarrow> string" where
  "counter_type_of name_lower =
     (if contains ''_crossing'' name_lower then ''crossing''
      else if list_ex (\<lambda>x. contains x name_lower) segment_indicators then ''segment''
      else ''unknown'')"

text \<open>
  The result is the tuple \<^verbatim>\<open>(camera_id, cordon_name, road_name, counter_type)\<close>. The
  argument is \<open>None\<close> for \<^verbatim>\<open>None\<close>, which \<^verbatim>\<open>not sensor_name\<close> treats like the empty
  string.
\<close>

definition extract_camera_id ::
  "string option \<Rightarrow> string option \<times> string option \<times> string option \<times> string option" where
  "extract_camera_id sensor_name_arg =
     (case sensor_name_arg of
        None \<Rightarrow> (None, None, None, None)
      | Some sensor_name \<Rightarrow>
          if sensor_name = [] then (None, None, None, None)
          else
            (let name_lower = lower sensor_name;
                 counter_type = counter_type_of name_lower;
                 parts = split_first CHR ''_'' sensor_name;
                 (cordon_name, name_body) =
                   (if length parts = 2 \<and> match_cordon (parts ! 0)
                    then (Some (upper (parts ! 0)), parts ! 1)
                    else (None, sensor_name));
                 body_parts = split_on CHR ''_'' name_body;
                 (road_name, raw_road_name) =
                   (case body_parts of
                      [] \<Rightarrow> (None, None)
                    | raw # _ \<Rightarrow> (Some (format_road_name raw), Some raw));
                 location_id =
                   (case raw_road_name of
                      None \<Rightarrow> []
                    | Some raw \<Rightarrow> if raw \<noteq> [] then lower raw else []);
                 location_id = sub_trailing_compass location_id;
                 camera_id =
                   (case cordon_name of
                      None \<Rightarrow> location_id
                    | Some c \<Rightarrow> if c \<noteq> [] then c @ ''_'' @ location_id else location_id)
             in (Some camera_id, cordon_name, road_name, Some counter_type)))"

subsection \<open>Count records (\<^verbatim>\<open>client.py\<close>, \<^verbatim>\<open>get_counts\<close>)\<close>

text \<open>
  The dictionaries appended to \<^verbatim>\<open>all_records\<close>. The time stamps come from
  \<^verbatim>\<open>record.get("from")\<close> and \<^verbatim>\<open>record.get("to")\<close>, which are \<^verbatim>\<open>None\<close> when the
  key is missing; a count that is appended is never \<^verbatim>\<open>None\<close>.
\<close>

record count_record =
  cr_countline_id :: string
  cr_timestamp :: "string option"
  cr_from :: "string option"
  cr_to :: "string option"
  cr_direction :: string
  cr_class :: string
  cr_mode :: string
  cr_count :: int

text \<open>
  The parser trusts the payload: it calls \<^verbatim>\<open>.items()\<close> and \<^verbatim>\<open>.get(...)\<close> on
  values that it takes for dictionaries and iterates over values that it takes for lists.
  A JSON value at such a place is \<open>Well x\<close> when it is of the kind the parser expects and
  \<open>Ill\<close> when it is of another kind, on which that operation raises
  (\<^verbatim>\<open>AttributeError\<close> for \<^verbatim>\<open>.items()\<close> or \<^verbatim>\<open>.get\<close> on a value that is not a
  dictionary, \<^verbatim>\<open>TypeError\<close> for the iteration over a number).
\<close>

datatype 'a shape = Well 'a | Ill

text \<open>
  The payload of a count response: \<^verbatim>\<open>{countline_id: [record, ...]}\<close>. The value of a
  countline is \<open>None\<close> when it is null (or another value that \<^verbatim>\<open>not records\<close> takes for
  false), a list of records, or \<open>Ill\<close> when it is a true value that cannot be iterated. A
  record is a dictionary with optional \<^verbatim>\<open>from\<close> and \<^verbatim>\<open>to\<close> and, under a direction
  key, a value that is \<open>None\<close> when the key is missing or the value is null (or false in
  another way), a dictionary from class labels to counts that may be null, or \<open>Ill\<close> when it
  is a true value that is not a dictionary; a record that is not a dictionary is \<open>Ill\<close>. The
  whole payload is \<open>Ill\<close> when it is not a dictionary. A dictionary is the list of its items
  in iteration order. Time stamps are strings and counts are integers.
\<close>

type_synonym dir_data = "(string \<times> int option) list"

record count_bucket =
  cb_from :: "string option"
  cb_to :: "string option"
  cb_directions :: "string \<Rightarrow> dir_data shape option"

type_synonym 'b countline_items = "(string \<times> 'b shape list shape option) list"

type_synonym counts_payload = "count_bucket countline_items shape"

text \<open>
  \<^verbatim>\<open>VIVACITY_CLASS_MAP\<close> is imported from \<^verbatim>\<open>constants.py\<close>, which is not among the
  sources: the table is a parameter \<open>class_map\<close> of the model, a dictionary from vendor
  class labels to unified modes.
\<close>

type_synonym class_table = "string \<Rightarrow> string option"

text \<open>
  \<^verbatim>\<open>for viv_class, count in dir_data.items()\<close>, lines 227 to 243: the label
  \<^verbatim>\<open>total\<close> and a null count are skipped; otherwise the mode is
  \<^verbatim>\<open>VIVACITY_CLASS_MAP.get(viv_class, viv_class)\<close> and one record is appended.
\<close>

fun class_loop ::
  "class_table \<Rightarrow> string \<Rightarrow> string option \<Rightarrow> string option \<Rightarrow> string \<Rightarrow> dir_data
   \<Rightarrow> count_record list \<Rightarrow> count_record list" where
  "class_loop class_map countline_id from_time to_time direction [] all_records = all_records"
| "class_loop class_map countline_id from_time to_time direction ((viv_class, count) # rest)
     all_records =
     (case count of
        None \<Rightarrow>
          class_loop class_map countline_id from_time to_time direction rest all_records
      | Some n \<Rightarrow>
          if viv_class = ''total''
          then class_loop class_map countline_id from_time to_time direction rest all_records
          else
            (let mode = (case class_map viv_class of None \<Rightarrow> viv_class | Some m \<Rightarrow> m)
             in class_loop class_map countline_id from_time to_time direction rest
                  (all_records @
                   [\<lparr>cr_countline_id = countline_id, cr_timestamp = from_time,
                     cr_from = from_time, cr_to = to_time, cr_direction = direction,
                     cr_class = viv_class, cr_mode = mode, cr_count = n\<rparr>])))"

text \<open>
  In the words of the specification: the class labels of a direction's payload that give a
  record are those that are not the pseudo-class \<^verbatim>\<open>total\<close> and whose count is not null;
  \<open>emitting\<close> lists them with their counts, in the order of the payload. The unified mode
  of a label is its translation in the table, or the label itself when the table has none.
\<close>

definition emitting :: "dir_data \<Rightarrow> (string \<times> int) list" where
  "emitting dir_data =
     List.map_filter
       (\<lambda>(viv_class, count).
          if viv_class = ''total'' then None
          else map_option (\<lambda>n. (viv_class, n)) count)
       dir_data"

definition unified_mode :: "class_table \<Rightarrow> string \<Rightarrow> string" where
  "unified_mode class_map viv_class =
     (if viv_class \<in> dom class_map then the (class_map viv_class) else viv_class)"

text \<open>
  The loops below can raise part-way. Their result is the state of \<^verbatim>\<open>all_records\<close>
  when the loop ends (\<open>Done\<close>) or when the exception is raised (\<open>Raised\<close>): the records
  appended before an exception stay in the list.
\<close>

datatype 'r parsed = Done "'r list" | Raised "'r list"

definition records_of :: "'r parsed \<Rightarrow> 'r list" where
  "records_of p = (case p of Done rs \<Rightarrow> rs | Raised rs \<Rightarrow> rs)"


definition prepend :: "'r list \<Rightarrow> 'r parsed \<Rightarrow> 'r parsed" where
  "prepend acc p = (case p of Done rs \<Rightarrow> Done (acc @ rs) | Raised rs \<Rightarrow> Raised (acc @ rs))"

text \<open>
  \<^verbatim>\<open>for direction in ["clockwise", "anti_clockwise"]\<close>: a missing, null or empty
  dictionary is skipped, and \<^verbatim>\<open>dir_data.items()\<close> raises on a true value that is not a
  dictionary.
\<close>

fun direction_loop ::
  "class_table \<Rightarrow> string \<Rightarrow> count_bucket \<Rightarrow> string list \<Rightarrow> count_record list
   \<Rightarrow> count_record parsed" where
  "direction_loop class_map countline_id bucket [] all_records = Done all_records"
| "direction_loop class_map countline_id bucket (direction # rest) all_records =
     (case cb_directions bucket direction of
        None \<Rightarrow> direction_loop class_map countline_id bucket rest all_records
      | Some Ill \<Rightarrow> Raised all_records
      | Some (Well dir_data) \<Rightarrow>
          if dir_data = []
          then direction_loop class_map countline_id bucket rest all_records
          else direction_loop class_map countline_id bucket rest
                 (class_loop class_map countline_id (cb_from bucket) (cb_to bucket) direction
                    dir_data all_records))"

text \<open>
  \<^verbatim>\<open>for record in records\<close>: \<^verbatim>\<open>record.get("from")\<close> raises on a record that is not a
  dictionary.
\<close>

fun record_loop ::
  "class_table \<Rightarrow> string \<Rightarrow> count_bucket shape list \<Rightarrow> count_record list
   \<Rightarrow> count_record parsed" where
  "record_loop class_map countline_id [] all_records = Done all_records"
| "record_loop class_map countline_id (item # rest) all_records =
     (case item of
        Ill \<Rightarrow> Raised all_records
      | Well bucket \<Rightarrow>
          (case direction_loop class_map countline_id bucket [''clockwise'', ''anti_clockwise'']
                  all_records of
             Raised rs \<Rightarrow> Raised rs
           | Done rs \<Rightarrow> record_loop class_map countline_id rest rs))"

text \<open>
  \<^verbatim>\<open>for countline_id, records in data.items()\<close>: a null or empty list of records is
  skipped, and the iteration raises on a true value that cannot be iterated.
\<close>

fun countline_loop ::
  "class_table \<Rightarrow> count_bucket countline_items \<Rightarrow> count_record list \<Rightarrow> count_record parsed"
where
  "countline_loop class_map [] all_records = Done all_records"
| "countline_loop class_map ((countline_id, records) # rest) all_records =
     (case records of
        None \<Rightarrow> countline_loop class_map rest all_records
      | Some Ill \<Rightarrow> Raised all_records
      | Some (Well items) \<Rightarrow>
          if items = [] then countline_loop class_map rest all_records
          else (case record_loop class_map countline_id items all_records of
                  Raised rs \<Rightarrow> Raised rs
                | Done rs \<Rightarrow> countline_loop class_map rest rs))"

text \<open>
  The parser of a decoded count payload, lines 211 to 243: \<^verbatim>\<open>data.items()\<close> raises when
  the payload is not a dictionary.
\<close>

definition parse_counts ::
  "class_table \<Rightarrow> counts_payload \<Rightarrow> count_record list \<Rightarrow> count_record parsed" where
  "parse_counts class_map data all_records =
     (case data of
        Ill \<Rightarrow> Raised all_records
      | Well items \<Rightarrow> countline_loop class_map items all_records)"

subsection \<open>Requests and responses\<close>

text \<open>
  The query parameters of one sub-batch request. The two time stamps are kept as
  \<^verbatim>\<open>datetime\<close> values; their \<^verbatim>\<open>strftime\<close> text is not modelled.
\<close>

record request =
  rq_path :: string
  rq_countline_ids :: string
  rq_from :: datetime
  rq_to :: datetime
  rq_time_bucket :: string

text \<open>
  What \<^verbatim>\<open>await self.client.get(...)\<close> and \<^verbatim>\<open>resp.json()\<close> do for one request: the
  call raises an exception, or there is a response with a status code and a body, which is
  \<open>None\<close> when \<^verbatim>\<open>resp.json()\<close> raises. The server is an oracle that answers the
  \<open>k\<close>-th request of a call.
\<close>

datatype 'p outcome = Raises | Response nat "'p option"

type_synonym 'p http = "nat \<Rightarrow> request \<Rightarrow> 'p outcome"

definition mk_request :: "string \<Rightarrow> string \<Rightarrow> string list \<Rightarrow> date_batch \<Rightarrow> request" where
  "mk_request path time_bucket id_batch date_batch =
     \<lparr>rq_path = path, rq_countline_ids = join '','' id_batch,
      rq_from = batch_from date_batch, rq_to = batch_to date_batch,
      rq_time_bucket = time_bucket\<rparr>"

text \<open>
  The body of the \<^verbatim>\<open>try\<close> block for one sub-batch: what the response adds to
  \<^verbatim>\<open>all_records\<close>, given the parser of a decoded payload. An exception of the request or
  of \<^verbatim>\<open>resp.json()\<close> is caught by \<^verbatim>\<open>except Exception\<close>, and a status other than 200
  takes the \<^verbatim>\<open>continue\<close>; both leave \<^verbatim>\<open>all_records\<close> as it is. The parser runs
  inside the same \<^verbatim>\<open>try\<close> block and appends to \<^verbatim>\<open>all_records\<close> as it goes: an
  exception that it raises is caught too, and the records appended before it are not taken
  back.
\<close>

definition handle_response ::
  "('p \<Rightarrow> 'r list \<Rightarrow> 'r parsed) \<Rightarrow> 'p outcome \<Rightarrow> 'r list \<Rightarrow> 'r list" where
  "handle_response parse resp all_records =
     (case resp of
        Raises \<Rightarrow> all_records
      | Response status_code body \<Rightarrow>
          if status_code \<noteq> 200 then all_records
          else (case body of
                  None \<Rightarrow> all_records
                | Some data \<Rightarrow>
                    (case parse data all_records of
                       Done rs \<Rightarrow> rs
                     | Raised rs \<Rightarrow> rs)))"

text \<open>
  \<^verbatim>\<open>for date_batch in date_batches\<close> and \<^verbatim>\<open>for id_batch in id_batches\<close>. The state
  is \<^verbatim>\<open>all_records\<close> and the list of the requests sent so far.
\<close>

fun date_loop ::
  "'p http \<Rightarrow> ('p \<Rightarrow> 'r list \<Rightarrow> 'r parsed) \<Rightarrow> string \<Rightarrow> string \<Rightarrow> string list \<Rightarrow> date_batch list
   \<Rightarrow> 'r list \<times> request list \<Rightarrow> 'r list \<times> request list" where
  "date_loop http parse path time_bucket id_batch [] st = st"
| "date_loop http parse path time_bucket id_batch (date_batch # rest) (all_records, sent) =
     (let params = mk_request path time_bucket id_batch date_batch;
          resp = http (length sent) params
      in date_loop http parse path time_bucket id_batch rest
           (handle_response parse resp all_records, sent @ [params]))"

fun id_loop ::
  "'p http \<Rightarrow> ('p \<Rightarrow> 'r list \<Rightarrow> 'r parsed) \<Rightarrow> string \<Rightarrow> string \<Rightarrow> string list list
   \<Rightarrow> date_batch list \<Rightarrow> 'r list \<times> request list \<Rightarrow> 'r list \<times> request list" where
  "id_loop http parse path time_bucket [] date_batches st = st"
| "id_loop http parse path time_bucket (id_batch # rest) date_batches st =
     id_loop http parse path time_bucket rest date_batches
       (date_loop http parse path time_bucket id_batch date_batches st)"

subsection \<open>Aggregation over directions\<close>

text \<open>
  \<^verbatim>\<open>df.groupby([...]).agg({"count": "sum"}).reset_index().to_dict(orient="records")\<close>.
  The rows of the result have the six grouping columns and \<^verbatim>\<open>count\<close>; there is no
  \<^verbatim>\<open>direction\<close> column. As pandas does by default, \<^verbatim>\<open>groupby\<close> leaves out the rows
  in which one of the grouping columns is null, and gives the groups in the sorted order of
  their keys.

  The counts of the records are Python integers; in the data frame they are a column with
  a type that pandas chooses from all of them: \<^verbatim>\<open>int64\<close> when every count fits in a
  signed 64-bit integer, \<^verbatim>\<open>uint64\<close> when a count is above \<^verbatim>\<open>2**63 - 1\<close>, none is
  negative and all are below \<^verbatim>\<open>2**64\<close>, and \<^verbatim>\<open>object\<close> otherwise. The sum of a group
  is computed in the type of the column: modulo \<^verbatim>\<open>2**64\<close>, with no check for overflow,
  in the two integer types, and on Python integers in a column of objects.
\<close>

datatype dtype = Int64 | UInt64 | Object

definition count_dtype :: "int list \<Rightarrow> dtype" where
  "count_dtype counts =
     (if list_ex (\<lambda>n. n < - (2 ^ 63) \<or> 2 ^ 64 \<le> n) counts then Object
      else if list_ex (\<lambda>n. 2 ^ 63 \<le> n) counts
      then (if list_ex (\<lambda>n. n < 0) counts then Object else UInt64)
      else Int64)"

definition wrap_int64 :: "int \<Rightarrow> int" where
  "wrap_int64 n = (n + 2 ^ 63) mod 2 ^ 64 - 2 ^ 63"

definition wrap_uint64 :: "int \<Rightarrow> int" where
  "wrap_uint64 n = n mod 2 ^ 64"

definition column_sum :: "dtype \<Rightarrow> int list \<Rightarrow> int" where
  "column_sum t counts =
     (case t of
        Int64 \<Rightarrow> wrap_int64 (sum_list counts)
      | UInt64 \<Rightarrow> wrap_uint64 (sum_list counts)
      | Object \<Rightarrow> sum_list counts)"

record agg_record =
  ag_countline_id :: string
  ag_timestamp :: string
  ag_from :: string
  ag_to :: string
  ag_class :: string
  ag_mode :: string
  ag_count :: int

type_synonym group_key = "string \<times> string \<times> string \<times> string \<times> string \<times> string"

definition key_of :: "count_record \<Rightarrow> group_key option" where
  "key_of r =
     (case (cr_timestamp r, cr_from r, cr_to r) of
        (Some t, Some f, Some e) \<Rightarrow> Some (cr_countline_id r, t, f, e, cr_class r, cr_mode r)
      | _ \<Rightarrow> None)"

definition agg_key :: "agg_record \<Rightarrow> group_key" where
  "agg_key a = (ag_countline_id a, ag_timestamp a, ag_from a, ag_to a, ag_class a, ag_mode a)"

definition group_sum :: "count_record list \<Rightarrow> group_key \<Rightarrow> int" where
  "group_sum rs k =
     column_sum (count_dtype (map cr_count rs))
       (map cr_count (filter (\<lambda>r. key_of r = Some k) rs))"

definition mk_agg :: "group_key \<Rightarrow> int \<Rightarrow> agg_record" where
  "mk_agg k n =
     (case k of (c, t, f, e, cl, m) \<Rightarrow>
        \<lparr>ag_countline_id = c, ag_timestamp = t, ag_from = f, ag_to = e, ag_class = cl,
         ag_mode = m, ag_count = n\<rparr>)"

definition groupby_sum :: "count_record list \<Rightarrow> agg_record list" where
  "groupby_sum rs =
     map (\<lambda>k. mk_agg k (group_sum rs k)) (sort (remdups (List.map_filter key_of rs)))"

text \<open>The tail of \<^verbatim>\<open>get_counts\<close>, lines 248 to 260.\<close>

datatype counts_result = Aggregated "agg_record list" | Directional "count_record list"

definition finish_counts :: "bool \<Rightarrow> count_record list \<Rightarrow> counts_result" where
  "finish_counts bidirectional all_records =
     (if bidirectional then
        (if all_records = [] then Aggregated [] else Aggregated (groupby_sum all_records))
      else Directional all_records)"

text \<open>
  \<^verbatim>\<open>get_counts\<close>. The result is paired with the requests that were sent. An error of
  \<^verbatim>\<open>batch_date_range\<close> is raised before any request.
\<close>

definition get_counts ::
  "counts_payload http \<Rightarrow> class_table \<Rightarrow> string list \<Rightarrow> datetime \<Rightarrow> datetime \<Rightarrow> string \<Rightarrow> bool
   \<Rightarrow> (py_error + counts_result \<times> request list) option" where
  "get_counts http class_map countline_ids start_time end_time time_bucket bidirectional =
     (case batch_date_range start_time end_time 7 of
        None \<Rightarrow> None
      | Some (Inl e) \<Rightarrow> Some (Inl e)
      | Some (Inr date_batches) \<Rightarrow>
          (let (all_records, sent) =
                 id_loop http (parse_counts class_map) ''/countline/counts'' time_bucket
                   (id_batches countline_ids) date_batches ([], [])
           in Some (Inr (finish_counts bidirectional all_records, sent))))"

subsection \<open>Speed records (\<^verbatim>\<open>client.py\<close>, \<^verbatim>\<open>get_speed\<close>)\<close>

text \<open>
  A speed is a value of some numeric type \<open>'v\<close>. Every field of a speed record but the
  countline identifier comes from a \<^verbatim>\<open>record.get(...)\<close> and may be null.
\<close>

record 'v speed_bucket =
  sb_from :: "string option"
  sb_to :: "string option"
  sb_mean :: "'v option"
  sb_p50 :: "'v option"
  sb_p85 :: "'v option"
  sb_sample_size :: "int option"

text \<open>
  The payload of a speed response has the layout of a count payload; its records are read
  with \<^verbatim>\<open>record.get(...)\<close>, which raises on a record that is not a dictionary.
\<close>

type_synonym 'v speed_payload = "'v speed_bucket countline_items shape"

record 'v speed_record =
  sp_countline_id :: string
  sp_from :: "string option"
  sp_to :: "string option"
  sp_mean_speed :: "'v option"
  sp_p50_speed :: "'v option"
  sp_p85_speed :: "'v option"
  sp_sample_size :: "int option"

text \<open>The dictionary that \<^verbatim>\<open>get_speed\<close> appends for a record, lines 313 to 321.\<close>

definition speed_record_of :: "string \<Rightarrow> 'v speed_bucket \<Rightarrow> 'v speed_record" where
  "speed_record_of countline_id bucket =
     \<lparr>sp_countline_id = countline_id, sp_from = sb_from bucket, sp_to = sb_to bucket,
      sp_mean_speed = sb_mean bucket, sp_p50_speed = sb_p50 bucket,
      sp_p85_speed = sb_p85 bucket, sp_sample_size = sb_sample_size bucket\<rparr>"

fun speed_record_loop ::
  "string \<Rightarrow> 'v speed_bucket shape list \<Rightarrow> 'v speed_record list \<Rightarrow> 'v speed_record parsed"
where
  "speed_record_loop countline_id [] all_records = Done all_records"
| "speed_record_loop countline_id (item # rest) all_records =
     (case item of
        Ill \<Rightarrow> Raised all_records
      | Well bucket \<Rightarrow>
          speed_record_loop countline_id rest
            (all_records @ [speed_record_of countline_id bucket]))"

fun speed_countline_loop ::
  "'v speed_bucket countline_items \<Rightarrow> 'v speed_record list \<Rightarrow> 'v speed_record parsed" where
  "speed_countline_loop [] all_records = Done all_records"
| "speed_countline_loop ((countline_id, records) # rest) all_records =
     (case records of
        None \<Rightarrow> speed_countline_loop rest all_records
      | Some Ill \<Rightarrow> Raised all_records
      | Some (Well items) \<Rightarrow>
          if items = [] then speed_countline_loop rest all_records
          else (case speed_record_loop countline_id items all_records of
                  Raised rs \<Rightarrow> Raised rs
                | Done rs \<Rightarrow> speed_countline_loop rest rs))"

definition parse_speed ::
  "'v speed_payload \<Rightarrow> 'v speed_record list \<Rightarrow> 'v speed_record parsed" where
  "parse_speed data all_records =
     (case data of
        Ill \<Rightarrow> Raised all_records
      | Well items \<Rightarrow> speed_countline_loop items all_records)"

definition get_speed ::
  "'v speed_payload http \<Rightarrow> string list \<Rightarrow> datetime \<Rightarrow> datetime \<Rightarrow> string
   \<Rightarrow> (py_error + 'v speed_record list \<times> request list) option" where
  "get_speed http countline_ids start_time end_time time_bucket =
     (case batch_date_range start_time end_time 7 of
        None \<Rightarrow> None
      | Some (Inl e) \<Rightarrow> Some (Inl e)
      | Some (Inr date_batches) \<Rightarrow>
          Some (Inr (id_loop http parse_speed ''/countline/speed'' time_bucket
                       (id_batches countline_ids) date_batches ([], []))))"

text \<open>
  The requests of a call, and what the responses to them contribute: every pair of an
  identifier batch and a date batch is requested once, in order. A sub-batch contributes
  nothing when the request raises, when the status is not 200 and when the body does not
  decode; otherwise it contributes the records that the parser appends for its payload,
  until the parser ends or raises.
\<close>

definition sub_batch_requests ::
  "string \<Rightarrow> string \<Rightarrow> string list list \<Rightarrow> date_batch list \<Rightarrow> request list" where
  "sub_batch_requests path time_bucket id_bs date_bs =
     concat (map (\<lambda>id_batch. map (mk_request path time_bucket id_batch) date_bs) id_bs)"

definition successful_payload :: "'p outcome \<Rightarrow> 'p option" where
  "successful_payload resp =
     (case resp of
        Raises \<Rightarrow> None
      | Response status_code body \<Rightarrow> if status_code = 200 then body else None)"

definition contribution ::
  "'p http \<Rightarrow> ('p \<Rightarrow> 'r list \<Rightarrow> 'r parsed) \<Rightarrow> nat \<times> request \<Rightarrow> 'r list" where
  "contribution http parse numbered =
     (case successful_payload (http (fst numbered) (snd numbered)) of
        None \<Rightarrow> []
      | Some data \<Rightarrow> records_of (parse data []))"

definition contributions ::
  "'p http \<Rightarrow> ('p \<Rightarrow> 'r list \<Rightarrow> 'r parsed) \<Rightarrow> request list \<Rightarrow> 'r list" where
  "contributions http parse sent = concat (map (contribution http parse) (enumerate 0 sent))"






subsection \<open>Traffic frames (\<^verbatim>\<open>client.py\<close>, \<^verbatim>\<open>fetch_region_traffic\<close>)\<close>

text \<open>
  The rows of the two data frames that \<^verbatim>\<open>fetch_region_traffic\<close> can return, and the
  empty frame. The time stamp of a row is kept as the text it was parsed from.
\<close>

record 'v traffic_row =
  tr_timestamp :: string
  tr_sensor_id :: string
  tr_mode :: string
  tr_count :: int
  tr_v85 :: "'v option"
  tr_region :: string
  tr_source :: string

record direction_row =
  dr_timestamp :: "string option"
  dr_sensor_id :: string
  dr_direction :: string
  dr_mode :: string
  dr_count :: int
  dr_region :: string
  dr_source :: string

datatype 'v traffic_frame =
  Empty_frame
| Standard_frame "'v traffic_row list"
| Direction_frame "direction_row list"

definition standard_row :: "string \<Rightarrow> agg_record \<Rightarrow> 'v traffic_row" where
  "standard_row region_name a =
     \<lparr>tr_timestamp = ag_timestamp a, tr_sensor_id = ag_countline_id a, tr_mode = ag_mode a,
      tr_count = ag_count a, tr_v85 = None, tr_region = region_name,
      tr_source = ''vivacity''\<rparr>"

definition directional_row :: "string \<Rightarrow> count_record \<Rightarrow> direction_row" where
  "directional_row region_name r =
     \<lparr>dr_timestamp = cr_timestamp r, dr_sensor_id = cr_countline_id r,
      dr_direction = cr_direction r, dr_mode = cr_mode r, dr_count = cr_count r,
      dr_region = region_name, dr_source = ''vivacity''\<rparr>"

definition fetch_region_traffic ::
  "counts_payload http \<Rightarrow> class_table \<Rightarrow> string list \<Rightarrow> datetime \<Rightarrow> datetime \<Rightarrow> string
   \<Rightarrow> string \<Rightarrow> bool \<Rightarrow> (py_error + 'v traffic_frame \<times> request list) option" where
  "fetch_region_traffic http class_map countline_ids start_time end_time region_name
     time_bucket bidirectional =
     (case get_counts http class_map countline_ids start_time end_time time_bucket
             bidirectional of
        None \<Rightarrow> None
      | Some (Inl e) \<Rightarrow> Some (Inl e)
      | Some (Inr (counts, sent)) \<Rightarrow>
          Some (Inr
            ((case counts of
                Aggregated ags \<Rightarrow>
                  if ags = [] then Empty_frame
                  else Standard_frame (map (standard_row region_name) ags)
              | Directional rs \<Rightarrow>
                  if rs = [] then Empty_frame
                  else Direction_frame (map (directional_row region_name) rs)),
             sent)))"

subsection \<open>The speed join (\<^verbatim>\<open>client.py\<close>, \<^verbatim>\<open>fetch_region_traffic_with_speed\<close>)\<close>

text \<open>
  Two library functions are parameters of the model. \<open>date_of\<close> is
  \<^verbatim>\<open>pd.to_datetime(...).dt.date\<close> on a time stamp, the calendar day or \<open>None\<close> for a value
  that is not a time; on a null time stamp the day is null. \<open>mean\<close> is the mean that pandas
  computes for a non-empty list of numbers.

  \<^verbatim>\<open>groupby(["sensor_id", "date"]).agg({"p85_speed": "mean"})\<close> leaves out the rows
  without a day, and its mean skips the null values of a group and is null when the group
  has no other. The model covers the calls in which pandas returns: a time stamp that
  \<^verbatim>\<open>pd.to_datetime\<close> cannot parse makes it raise, and so may a speed column that
  holds nothing but nulls.
\<close>

definition speed_date :: "(string \<Rightarrow> 'd option) \<Rightarrow> 'v speed_record \<Rightarrow> 'd option" where
  "speed_date date_of s = (case sp_from s of None \<Rightarrow> None | Some f \<Rightarrow> date_of f)"

definition speed_key :: "(string \<Rightarrow> 'd option) \<Rightarrow> 'v speed_record \<Rightarrow> (string \<times> 'd) option" where
  "speed_key date_of s =
     (case speed_date date_of s of None \<Rightarrow> None | Some d \<Rightarrow> Some (sp_countline_id s, d))"

definition group_mean :: "('v list \<Rightarrow> 'v) \<Rightarrow> 'v option list \<Rightarrow> 'v option" where
  "group_mean mean vs =
     (case List.map_filter (\<lambda>v. v) vs of [] \<Rightarrow> None | x # xs \<Rightarrow> Some (mean (x # xs)))"

definition speed_daily ::
  "('v list \<Rightarrow> 'v) \<Rightarrow> (string \<Rightarrow> 'd option) \<Rightarrow> 'v speed_record list
   \<Rightarrow> ((string \<times> 'd) \<times> 'v option) list" where
  "speed_daily mean date_of speed_records =
     map (\<lambda>k. (k, group_mean mean
                     (map sp_p85_speed
                        (filter (\<lambda>s. speed_key date_of s = Some k) speed_records))))
         (remdups (List.map_filter (speed_key date_of) speed_records))"

text \<open>
  The left merge on \<^verbatim>\<open>["sensor_id", "date"]\<close> and the assignment of
  \<^verbatim>\<open>p85_speed\<close> to \<^verbatim>\<open>v85\<close> in the rows whose mode is \<^verbatim>\<open>car\<close>. The keys of
  \<^verbatim>\<open>speed_daily\<close> are distinct, so every row of the frame stays one row.
\<close>

definition merged_p85 ::
  "(string \<Rightarrow> 'd option) \<Rightarrow> ((string \<times> 'd) \<times> 'v option) list \<Rightarrow> 'v traffic_row \<Rightarrow> 'v option"
where
  "merged_p85 date_of daily row =
     (case date_of (tr_timestamp row) of
        None \<Rightarrow> None
      | Some d \<Rightarrow>
          (case map_of daily (tr_sensor_id row, d) of
             None \<Rightarrow> None
           | Some p85_speed \<Rightarrow> p85_speed))"

definition join_speed ::
  "('v list \<Rightarrow> 'v) \<Rightarrow> (string \<Rightarrow> 'd option) \<Rightarrow> 'v traffic_row list \<Rightarrow> 'v speed_record list
   \<Rightarrow> 'v traffic_row list" where
  "join_speed mean date_of df speed_records =
     (let daily = speed_daily mean date_of speed_records
      in map (\<lambda>row. if tr_mode row = ''car''
                     then row\<lparr>tr_v85 := merged_p85 date_of daily row\<rparr>
                     else row) df)"

definition fetch_region_traffic_with_speed ::
  "counts_payload http \<Rightarrow> 'v speed_payload http \<Rightarrow> ('v list \<Rightarrow> 'v) \<Rightarrow> (string \<Rightarrow> 'd option)
   \<Rightarrow> class_table \<Rightarrow> string list \<Rightarrow> datetime \<Rightarrow> datetime \<Rightarrow> string \<Rightarrow> string
   \<Rightarrow> (py_error + 'v traffic_frame \<times> request list \<times> request list) option" where
  "fetch_region_traffic_with_speed counts_http speed_http mean date_of class_map countline_ids
     start_time end_time region_name time_bucket =
     (case fetch_region_traffic counts_http class_map countline_ids start_time end_time
             region_name time_bucket True of
        None \<Rightarrow> None
      | Some (Inl e) \<Rightarrow> Some (Inl e)
      | Some (Inr (frame, sent)) \<Rightarrow>
          (case frame of
             Standard_frame df \<Rightarrow>
               (case get_speed speed_http countline_ids start_time end_time ''24h'' of
                  None \<Rightarrow> None
                | Some (Inl e) \<Rightarrow> Some (Inl e)
                | Some (Inr (speed_records, speed_sent)) \<Rightarrow>
                    Some (Inr
                      (Standard_frame
                         (if speed_records \<noteq> []
                          then join_speed mean date_of df speed_records
                          else df),
                       sent, speed_sent)))
           | _ \<Rightarrow> Some (Inr (frame, sent, []))))"

subsection \<open>Example data\<close>

text \<open>
  A class table with two entries, and the payload of one direction with a recognized label,
  the pseudo-class \<^verbatim>\<open>total\<close>, a null count and a label that the table does not have.
\<close>

definition example_class_map :: class_table where
  "example_class_map = [''car'' \<mapsto> ''car'', ''cyclist'' \<mapsto> ''bike'']"

definition example_dir_data :: dir_data where
  "example_dir_data =
     [(''cyclist'', Some 3), (''total'', Some 10), (''bus'', None), (''escooter'', Some 7)]"

text \<open>
  One hour of countline 101 with three cars clockwise and five anti-clockwise, and a server
  whose first request fails in the transport, whose second gets status 503 and whose later
  ones get this payload.
\<close>

definition example_bucket :: count_bucket where
  "example_bucket =
     \<lparr>cb_from = Some ''2024-01-01T00:00:00.000Z'', cb_to = Some ''2024-01-01T01:00:00.000Z'',
      cb_directions =
        (\<lambda>d. if d = ''clockwise'' then Some (Well [(''car'', Some 3)])
             else if d = ''anti_clockwise'' then Some (Well [(''car'', Some 5)])
             else None)\<rparr>"

definition example_counts_payload :: counts_payload where
  "example_counts_payload = Well [(''101'', Some (Well [Well example_bucket]))]"

definition example_counts_http :: "counts_payload http" where
  "example_counts_http k params =
     (if k = 0 then Raises
      else if k = 1 then Response 503 None
      else Response 200 (Some example_counts_payload))"

text \<open>
  A speed server that answers the first request with two entries of one day for countline
  101, with 85th percentiles 30 and 40, and every later request with status 500. Speeds are
  rational numbers here, with their arithmetic mean, and the day of a time stamp is its
  first ten characters.
\<close>

definition example_speed_buckets :: "rat speed_bucket list" where
  "example_speed_buckets =
     [\<lparr>sb_from = Some ''2024-01-01T00:00:00.000Z'', sb_to = Some ''2024-01-01T12:00:00.000Z'',
       sb_mean = Some 25, sb_p50 = Some 24, sb_p85 = Some 30, sb_sample_size = Some 100\<rparr>,
      \<lparr>sb_from = Some ''2024-01-01T12:00:00.000Z'', sb_to = Some ''2024-01-02T00:00:00.000Z'',
       sb_mean = Some 35, sb_p50 = Some 34, sb_p85 = Some 40, sb_sample_size = Some 80\<rparr>]"

definition example_speed_payload :: "rat speed_payload" where
  "example_speed_payload = Well [(''101'', Some (Well (map Well example_speed_buckets)))]"

definition example_speed_http :: "rat speed_payload http" where
  "example_speed_http k params =
     (if k = 0 then Response 200 (Some example_speed_payload) else Response 500 None)"

definition example_mean :: "rat list \<Rightarrow> rat" where
  "example_mean xs = sum_list xs / of_nat (length xs)"

definition example_date_of :: "string \<Rightarrow> string option" where
  "example_date_of ts = (if length ts < 10 then None else Some (take 10 ts))"

text \<open>
  The sixteen days from 2024-01-01 to 2024-01-17 in batches of seven days, and the two
  directional records that the example payload gives.
\<close>

definition example_date_batches :: "date_batch list" where
  "example_date_batches =
     [\<lparr>batch_from = 738885 * us_per_day, batch_to = 738892 * us_per_day\<rparr>,
      \<lparr>batch_from = 738892 * us_per_day, batch_to = 738899 * us_per_day\<rparr>,
      \<lparr>batch_from = 738899 * us_per_day, batch_to = 738901 * us_per_day\<rparr>]"

definition example_records :: "count_record list" where
  "example_records =
     [\<lparr>cr_countline_id = ''101'', cr_timestamp = Some ''2024-01-01T00:00:00.000Z'',
       cr_from = Some ''2024-01-01T00:00:00.000Z'', cr_to = Some ''2024-01-01T01:00:00.000Z'',
       cr_direction = ''clockwise'', cr_class = ''car'', cr_mode = ''car'', cr_count = 3\<rparr>,
      \<lparr>cr_countline_id = ''101'', cr_timestamp = Some ''2024-01-01T00:00:00.000Z'',
       cr_from = Some ''2024-01-01T00:00:00.000Z'', cr_to = Some ''2024-01-01T01:00:00.000Z'',
       cr_direction = ''anti_clockwise'', cr_class = ''car'', cr_mode = ''car'',
       cr_count = 5\<rparr>]"

text \<open>
  A server whose payload has the same counts in a record without the keys \<^verbatim>\<open>from\<close>
  and \<^verbatim>\<open>to\<close>.
\<close>

definition example_untimed_http :: "counts_payload http" where
  "example_untimed_http k params =
     Response 200
       (Some (Well [(''101'', Some (Well [Well (example_bucket\<lparr>cb_from := None, cb_to := None\<rparr>)]))]))"

definition example_untimed_records :: "count_record list" where
  "example_untimed_records =
     [\<lparr>cr_countline_id = ''101'', cr_timestamp = None, cr_from = None, cr_to = None,
       cr_direction = ''clockwise'', cr_class = ''car'', cr_mode = ''car'', cr_count = 3\<rparr>,
      \<lparr>cr_countline_id = ''101'', cr_timestamp = None, cr_from = None, cr_to = None,
       cr_direction = ''anti_clockwise'', cr_class = ''car'', cr_mode = ''car'',
       cr_count = 5\<rparr>]"

text \<open>
  A count server whose payload has cars in both directions and cyclists in one.
\<close>

definition example_mixed_http :: "counts_payload http" where
  "example_mixed_http k params =
     Response 200
       (Some (Well
          [(''101'',
            Some (Well
              [Well (example_bucket
                       \<lparr>cb_directions :=
                          (\<lambda>d. if d = ''clockwise''
                               then Some (Well [(''car'', Some 3), (''cyclist'', Some 2)])
                               else if d = ''anti_clockwise'' then Some (Well [(''car'', Some 5)])
                               else None)\<rparr>)]))]))"







section \<open>Properties\<close>

subsection \<open>Date batching\<close>

lemma tiling_snoc:
  "tiling width a bs c \<Longrightarrow> c < d \<Longrightarrow> d - c \<le> width \<Longrightarrow>
   tiling width a (bs @ [\<lparr>batch_from = c, batch_to = d\<rparr>]) d"
  by (induction bs arbitrary: a) auto

lemma tiling_hd: "tiling width a bs b \<Longrightarrow> bs \<noteq> [] \<Longrightarrow> batch_from (hd bs) = a"
  by (cases bs) auto

lemma tiling_last: "tiling width a bs b \<Longrightarrow> bs \<noteq> [] \<Longrightarrow> batch_to (last bs) = b"
  by (induction bs arbitrary: a) (auto split: if_splits)

lemma tiling_adjacent:
  "tiling width a bs b \<Longrightarrow> Suc i < length bs \<Longrightarrow> batch_to (bs ! i) = batch_from (bs ! Suc i)"
proof (induction bs arbitrary: a i)
  case Nil
  then show ?case by simp
next
  case (Cons x xs)
  show ?case
  proof (cases i)
    case 0
    then show ?thesis using Cons.prems by (cases xs) auto
  next
    case (Suc j)
    then show ?thesis using Cons by auto
  qed
qed

lemma tiling_spans:
  "tiling width a bs b \<Longrightarrow> x \<in> set bs \<Longrightarrow>
   batch_from x < batch_to x \<and> batch_to x - batch_from x \<le> width"
  by (induction bs arbitrary: a) auto

lemma tiling_nonempty: "tiling width a bs b \<Longrightarrow> a < b \<Longrightarrow> bs \<noteq> []"
  by auto

lemma batch_loop_returns:
  "0 < max_days \<Longrightarrow> \<exists>r. batch_loop max_days to_date current batches = Some r"
proof (induction "nat (to_date - current)" arbitrary: current batches rule: less_induct)
  case less
  show ?case
  proof (cases "current < to_date")
    case False
    then show ?thesis by (subst batch_loop.simps) simp
  next
    case True
    show ?thesis
    proof (cases "timedelta_days max_days")
      case (Inl e)
      then show ?thesis using True by (subst batch_loop.simps) simp
    next
      case (Inr td)
      then have td: "0 < td"
        using \<open>0 < max_days\<close> by (auto simp: timedelta_days_def us_per_day_def split: if_splits)
      show ?thesis
      proof (cases "datetime_add current td")
        case (Inl e)
        then show ?thesis using True Inr by (subst batch_loop.simps) simp
      next
        case (Inr s)
        then have s: "s = current + td"
          by (auto simp: datetime_add_def split: if_splits)
        have "nat (to_date - min s to_date) < nat (to_date - current)"
          using True td s by auto
        from less(1)[OF this \<open>0 < max_days\<close>]
        show ?thesis
          using True \<open>timedelta_days max_days = Inr td\<close> Inr
          by (subst batch_loop.simps) (simp add: Let_def)
      qed
    qed
  qed
qed

lemma batch_loop_chain:
  "batch_loop max_days to_date current batches = Some (Inr out) \<Longrightarrow>
   0 < max_days \<Longrightarrow> current \<le> to_date \<Longrightarrow>
   tiling (max_days * us_per_day) a batches current \<Longrightarrow>
   tiling (max_days * us_per_day) a out to_date"
proof (induction "nat (to_date - current)" arbitrary: current batches rule: less_induct)
  case less
  show ?case
  proof (cases "current < to_date")
    case False
    then have eq: "current = to_date"
      using less.prems(3) by simp
    have "batch_loop max_days to_date current batches = Some (Inr batches)"
      using False by (subst batch_loop.simps) simp
    then have "out = batches"
      using less.prems(1) by simp
    then show ?thesis using less.prems(4) eq by simp
  next
    case True
    note run = less.prems(1)[unfolded batch_loop.simps[of max_days to_date current batches]]
    obtain td where td: "timedelta_days max_days = Inr td"
      using run True by (cases "timedelta_days max_days") auto
    then have tdv: "td = max_days * us_per_day" "0 < td"
      using \<open>0 < max_days\<close> by (auto simp: timedelta_days_def us_per_day_def split: if_splits)
    obtain s where s: "datetime_add current td = Inr s"
      using run True td by (cases "datetime_add current td") auto
    then have sv: "s = current + td"
      by (auto simp: datetime_add_def split: if_splits)
    define e where "e = min s to_date"
    have rec: "batch_loop max_days to_date e
                 (batches @ [\<lparr>batch_from = current, batch_to = e\<rparr>]) = Some (Inr out)"
      using run True td s by (simp add: Let_def e_def)
    have m: "nat (to_date - e) < nat (to_date - current)"
      using True tdv sv by (auto simp: e_def)
    have le: "e \<le> to_date" by (simp add: e_def)
    have ch: "tiling (max_days * us_per_day) a
                (batches @ [\<lparr>batch_from = current, batch_to = e\<rparr>]) e"
      using less.prems(4) True tdv sv by (intro tiling_snoc) (auto simp: e_def)
    from less.hyps[OF m rec \<open>0 < max_days\<close> le ch] show ?thesis .
  qed
qed

lemma batch_loop_no_overflow:
  "0 < max_days \<Longrightarrow> 0 \<le> current \<Longrightarrow> to_date + max_days * us_per_day \<le> datetime_max \<Longrightarrow>
   \<exists>out. batch_loop max_days to_date current batches = Some (Inr out)"
proof (induction "nat (to_date - current)" arbitrary: current batches rule: less_induct)
  case less
  show ?case
  proof (cases "current < to_date")
    case False
    then show ?thesis by (subst batch_loop.simps) simp
  next
    case True
    have "max_days * us_per_day \<le> datetime_max"
      using less.prems True by linarith
    then have small: "max_days \<le> 999999999"
      by (simp add: datetime_max_def us_per_day_def)
    then have td: "timedelta_days max_days = Inr (max_days * us_per_day)"
      using \<open>0 < max_days\<close> by (simp add: timedelta_days_def)
    have pos: "0 < max_days * us_per_day"
      using \<open>0 < max_days\<close> by (simp add: us_per_day_def)
    have add: "datetime_add current (max_days * us_per_day) = Inr (current + max_days * us_per_day)"
      using less.prems True pos by (simp add: datetime_add_def valid_datetime_def)
    define e where "e = min (current + max_days * us_per_day) to_date"
    have m: "nat (to_date - e) < nat (to_date - current)"
      using True pos by (auto simp: e_def)
    have e0: "0 \<le> e" using less.prems True pos by (simp add: e_def)
    from less.hyps[OF m \<open>0 < max_days\<close> e0 less.prems(3)]
    show ?thesis
      using True td add by (subst batch_loop.simps) (simp add: Let_def e_def)
  qed
qed


text \<open>
  Claim C1, as the code has it. For valid \<^verbatim>\<open>from_date < to_date\<close> and
  \<^verbatim>\<open>max_days > 0\<close> the call always ends, either with a list or with
  \<^verbatim>\<open>OverflowError\<close>; it ends with a list whenever \<^verbatim>\<open>to_date\<close> plus
  \<^verbatim>\<open>max_days\<close> days is still a \<^verbatim>\<open>datetime\<close>; and every list it returns tiles the
  interval: it is not empty, its first sub-range starts at \<^verbatim>\<open>from_date\<close>, each
  sub-range ends where the next one starts, each sub-range is not empty and spans at most
  \<^verbatim>\<open>max_days\<close> days, and the last sub-range ends at \<^verbatim>\<open>to_date\<close>. When
  \<^verbatim>\<open>from_date == to_date\<close> the result is the empty list.
\<close>

theorem batch_date_range_tiles:
  "(valid_datetime from_date \<and> valid_datetime to_date \<and> from_date < to_date \<and> 0 < max_days \<longrightarrow>
      (\<exists>r. batch_date_range from_date to_date max_days = Some r)
    \<and> (to_date + max_days * us_per_day \<le> datetime_max \<longrightarrow>
         (\<exists>bs. batch_date_range from_date to_date max_days = Some (Inr bs)))
    \<and> (\<forall>bs. batch_date_range from_date to_date max_days = Some (Inr bs) \<longrightarrow>
           bs \<noteq> []
         \<and> batch_from (hd bs) = from_date
         \<and> (\<forall>i. Suc i < length bs \<longrightarrow> batch_to (bs ! i) = batch_from (bs ! Suc i))
         \<and> (\<forall>b \<in> set bs. batch_from b < batch_to b
                \<and> batch_to b - batch_from b \<le> max_days * us_per_day)
         \<and> batch_to (last bs) = to_date))
   \<and> batch_date_range to_date to_date max_days = Some (Inr [])"
  (is "(?pre \<longrightarrow> ?returns \<and> ?succeeds \<and> ?tiles) \<and> ?empty")
proof (rule conjI)
  show ?empty
    unfolding batch_date_range_def by (subst batch_loop.simps) simp
next
  show "?pre \<longrightarrow> ?returns \<and> ?succeeds \<and> ?tiles"
  proof (rule impI)
    assume pre: ?pre
    then have v: "0 \<le> from_date" and lt: "from_date < to_date" and pos: "0 < max_days"
      by (simp_all add: valid_datetime_def)
    have r: ?returns
      unfolding batch_date_range_def using pos by (rule batch_loop_returns)
    have s: ?succeeds
    proof (rule impI)
      assume "to_date + max_days * us_per_day \<le> datetime_max"
      with pos v show "\<exists>bs. batch_date_range from_date to_date max_days = Some (Inr bs)"
        unfolding batch_date_range_def by (rule batch_loop_no_overflow)
    qed
    have t: ?tiles
    proof (rule allI, rule impI)
      fix bs
      assume run: "batch_date_range from_date to_date max_days = Some (Inr bs)"
      have start: "tiling (max_days * us_per_day) from_date [] from_date"
        by simp
      have le: "from_date \<le> to_date"
        using lt by simp
      have t: "tiling (max_days * us_per_day) from_date bs to_date"
        using run[unfolded batch_date_range_def] pos le start by (rule batch_loop_chain)
      have ne: "bs \<noteq> []"
        using t lt by (rule tiling_nonempty)
      have a: "batch_from (hd bs) = from_date"
        using t ne by (rule tiling_hd)
      have b: "\<forall>i. Suc i < length bs \<longrightarrow> batch_to (bs ! i) = batch_from (bs ! Suc i)"
        using tiling_adjacent[OF t] by simp
      have c: "\<forall>b \<in> set bs. batch_from b < batch_to b
                 \<and> batch_to b - batch_from b \<le> max_days * us_per_day"
        using tiling_spans[OF t] by simp
      have d: "batch_to (last bs) = to_date"
        using t ne by (rule tiling_last)
      show "bs \<noteq> []
         \<and> batch_from (hd bs) = from_date
         \<and> (\<forall>i. Suc i < length bs \<longrightarrow> batch_to (bs ! i) = batch_from (bs ! Suc i))
         \<and> (\<forall>b \<in> set bs. batch_from b < batch_to b
                \<and> batch_to b - batch_from b \<le> max_days * us_per_day)
         \<and> batch_to (last bs) = to_date"
        using ne a b c d by (intro conjI)
    qed
    show "?returns \<and> ?succeeds \<and> ?tiles"
      using r s t by (intro conjI)
  qed
qed

text \<open>
  2024-01-01 to 2024-01-11 with the default span of 7 days: two sub-ranges, split at
  2024-01-08.
\<close>

theorem batch_date_range_tiles_witness:
  "valid_datetime (738885 * us_per_day) \<and> valid_datetime (738895 * us_per_day)
   \<and> 738895 * us_per_day + 7 * us_per_day \<le> datetime_max
   \<and> batch_date_range (738885 * us_per_day) (738895 * us_per_day) 7
       = Some (Inr [\<lparr>batch_from = 738885 * us_per_day, batch_to = 738892 * us_per_day\<rparr>,
                    \<lparr>batch_from = 738892 * us_per_day, batch_to = 738895 * us_per_day\<rparr>])
   \<and> (\<exists>bs. batch_date_range (738885 * us_per_day) (738895 * us_per_day) 7 = Some (Inr bs)
          \<and> batch_from (hd bs) = 738885 * us_per_day
          \<and> batch_to (bs ! 0) = batch_from (bs ! 1)
          \<and> batch_to (last bs) = 738895 * us_per_day)
   \<and> batch_date_range (738895 * us_per_day) (738895 * us_per_day) 7 = Some (Inr [])"
proof -
  have v: "valid_datetime (738885 * us_per_day)" "valid_datetime (738895 * us_per_day)"
    "738895 * us_per_day + 7 * us_per_day \<le> datetime_max"
    "738885 * us_per_day < 738895 * us_per_day"
    by (simp_all add: valid_datetime_def datetime_max_def us_per_day_def)
  have run: "batch_date_range (738885 * us_per_day) (738895 * us_per_day) 7
       = Some (Inr [\<lparr>batch_from = 738885 * us_per_day, batch_to = 738892 * us_per_day\<rparr>,
                    \<lparr>batch_from = 738892 * us_per_day, batch_to = 738895 * us_per_day\<rparr>])"
    by (simp add: batch_date_range_def batch_loop.simps timedelta_days_def datetime_add_def
        valid_datetime_def datetime_max_def us_per_day_def)
  show ?thesis
    using batch_date_range_tiles[of "738885 * us_per_day" "738895 * us_per_day" 7] v run
    by simp
qed

text \<open>
  The claim as stated (a list for every \<^verbatim>\<open>from_date < to_date\<close>) fails at the end of
  the \<^verbatim>\<open>datetime\<close> range: from 9999-12-30 to 9999-12-31 the first
  \<^verbatim>\<open>current + timedelta(days=7)\<close> raises \<^verbatim>\<open>OverflowError\<close>.
\<close>

theorem batch_date_range_overflow_counterexample:
  "valid_datetime (3652057 * us_per_day) \<and> valid_datetime (3652058 * us_per_day)
   \<and> 3652057 * us_per_day < 3652058 * us_per_day
   \<and> batch_date_range (3652057 * us_per_day) (3652058 * us_per_day) 7 = Some (Inl OverflowError)"
  by (simp add: batch_date_range_def batch_loop.simps timedelta_days_def datetime_add_def
      valid_datetime_def datetime_max_def us_per_day_def)

subsection \<open>Identifier batching\<close>

lemma range_step_length:
  "0 < step \<Longrightarrow> length (range_step i stop step) = (stop - i + step - 1) div step"
proof (induction i stop step rule: range_step.induct)
  case (1 i stop step)
  show ?case
  proof (cases "i < stop")
    case True
    have ih: "length (range_step (i + step) stop step) = (stop - (i + step) + step - 1) div step"
      using 1 True by simp
    have ar: "(stop - i + step - 1) div step = Suc ((stop - (i + step) + step - 1) div step)"
    proof (cases "step \<le> stop - i")
      case True
      then obtain m where m: "stop - i = step + m"
        using le_Suc_ex by blast
      define x where "x = m + step - 1"
      have e1: "stop - i + step - 1 = step + x"
        using m \<open>0 < step\<close> by (simp add: x_def)
      have e2: "stop - (i + step) + step - 1 = x"
        using m by (simp add: x_def)
      have "(step + x) div step = Suc (x div step)"
        using \<open>0 < step\<close> by simp
      then show ?thesis unfolding e1 e2 .
    next
      case False
      then have a: "stop - (i + step) = 0" by simp
      have "step * 1 \<le> stop - i + step - 1" "stop - i + step - 1 < step * Suc 1"
        using False True by simp_all
      then have "(stop - i + step - 1) div step = 1"
        by (rule div_nat_eqI)
      then show ?thesis using a \<open>0 < step\<close> by simp
    qed
    show ?thesis
      using True \<open>0 < step\<close> ih ar by (simp add: range_step.simps[of i stop step])
  next
    case False
    then show ?thesis using 1 by (simp add: range_step.simps[of i stop step])
  qed
qed

lemma range_step_nth:
  "k < length (range_step i stop step) \<Longrightarrow> range_step i stop step ! k = i + k * step"
proof (induction i stop step arbitrary: k rule: range_step.induct)
  case (1 i stop step)
  show ?case
  proof (cases "0 < step \<and> i < stop")
    case True
    then have unf: "range_step i stop step = i # range_step (i + step) stop step"
      by (simp add: range_step.simps[of i stop step])
    show ?thesis
    proof (cases k)
      case 0
      then show ?thesis by (simp add: unf)
    next
      case (Suc j)
      then have "j < length (range_step (i + step) stop step)"
        using "1.prems" unf by simp
      then have "range_step (i + step) stop step ! j = (i + step) + j * step"
        using "1.IH" True by simp
      then show ?thesis by (simp add: unf Suc)
    qed
  next
    case False
    then have "range_step i stop step = []"
      by (simp add: range_step.simps[of i stop step])
    then show ?thesis using "1.prems" by simp
  qed
qed

lemma concat_range_step:
  "0 < k \<Longrightarrow>
   concat (map (\<lambda>j. slice xs j (j + k)) (range_step i (length xs) k)) = drop i xs"
proof (induction i "length xs" k rule: range_step.induct)
  case (1 i step)
  show ?case
  proof (cases "i < length xs")
    case True
    have "concat (map (\<lambda>j. slice xs j (j + step)) (range_step (i + step) (length xs) step))
          = drop (i + step) xs"
      using 1 True by simp
    then show ?thesis
      using True \<open>0 < step\<close>
      apply (simp add: range_step.simps[of i "length xs" step] slice_def)
      by (metis add.commute append_take_drop_id drop_drop)
  next
    case False
    then show ?thesis using 1 by (simp add: range_step.simps[of i "length xs" step])
  qed
qed

lemma ceiling_div_50: "\<lceil>real n / 50\<rceil> = int ((n + 49) div 50)"
  by linarith

text \<open>
  Claim C2. For a list of \<open>N\<close> countline identifiers, the chunking of \<^verbatim>\<open>get_counts\<close>
  produces exactly \<open>\<lceil>N / 50\<rceil>\<close> groups, every group has at most 50 identifiers, the
  \<open>k\<close>-th group is the slice of the list at positions \<open>50 k\<close> up to \<open>50 k + 50\<close> (the chunking
  is positional), and the concatenation of the groups in order is the original list.
\<close>

theorem id_batches_chunking:
  "int (length (id_batches ids)) = \<lceil>real (length ids) / 50\<rceil>
   \<and> length (id_batches ids) = (length ids + 49) div 50
   \<and> list_all (\<lambda>g. length g \<le> 50) (id_batches ids)
   \<and> (\<forall>k. k < length (id_batches ids) \<longrightarrow> id_batches ids ! k = take 50 (drop (50 * k) ids))
   \<and> concat (id_batches ids) = ids"
proof -
  have len: "length (id_batches ids) = (length ids + 49) div 50"
    by (simp add: id_batches_def range_step_length)
  have ceil: "int (length (id_batches ids)) = \<lceil>real (length ids) / 50\<rceil>"
    by (simp only: len ceiling_div_50)
  have small: "list_all (\<lambda>g. length g \<le> 50) (id_batches ids)"
    by (simp add: id_batches_def slice_def list_all_iff)
  have pos: "id_batches ids ! k = take 50 (drop (50 * k) ids)"
    if "k < length (id_batches ids)" for k
  proof -
    have "k < length (range_step 0 (length ids) 50)"
      using that by (simp add: id_batches_def)
    then show ?thesis
      by (simp add: id_batches_def slice_def range_step_nth mult.commute)
  qed
  have cat: "concat (id_batches ids) = ids"
    using concat_range_step[of 50 ids 0] by (simp add: id_batches_def)
  show ?thesis
    using len ceil small pos cat by blast
qed

theorem id_batches_chunking_witness:
  "id_batches (replicate 50 ''101'' @ [''102'']) = [replicate 50 ''101'', [''102'']]
   \<and> int (length (id_batches (replicate 50 ''101'' @ [''102'']))) = \<lceil>real 51 / 50\<rceil>
   \<and> id_batches (replicate 50 ''101'' @ [''102'']) ! 1 = [''102'']
   \<and> concat (id_batches (replicate 50 ''101'' @ [''102''])) = replicate 50 ''101'' @ [''102'']"
proof -
  have run: "id_batches (replicate 50 ''101'' @ [''102'']) = [replicate 50 ''101'', [''102'']]"
    by (simp add: id_batches_def slice_def range_step.simps)
  show ?thesis
    using id_batches_chunking[of "replicate 50 ''101'' @ [''102'']"] run by simp
qed

subsection \<open>Road-name formatting\<close>

lemma ord_char_of: "n < 256 \<Longrightarrow> ord (char_of n) = n"
  by (simp add: ord_def)

lemma upper_char_not_space: "\<not> is_space c \<Longrightarrow> \<not> is_space (upper_char c)"
  by (auto simp: upper_char_def is_space_def is_lower_def ord_char_of)

lemma lower_char_not_space: "\<not> is_space c \<Longrightarrow> \<not> is_space (lower_char c)"
  by (auto simp: lower_char_def is_space_def is_upper_def ord_char_of)

lemma capitalize_word: "is_word w \<Longrightarrow> is_word (capitalize w)"
  by (cases w) (auto simp: is_word_def list_all_iff upper_char_not_space lower_char_not_space)

lemma split_by_nonempty: "split_by P s \<noteq> []"
  by (induction s) (auto split: list.splits)

lemma split_by_pieces: "w \<in> set (split_by P s) \<Longrightarrow> list_all (\<lambda>c. \<not> P c) w"
proof (induction s arbitrary: w)
  case Nil
  then show ?case by simp
next
  case (Cons c cs)
  then show ?case
    by (cases "split_by P cs") (auto split: if_splits)
qed

lemma split_ws_words: "w \<in> set (split_ws s) \<Longrightarrow> is_word w"
  by (auto simp: split_ws_def is_word_def dest: split_by_pieces)

lemma split_by_append:
  "list_all (\<lambda>c. \<not> P c) u \<Longrightarrow> P sep \<Longrightarrow> split_by P (u @ sep # v) = u # split_by P v"
  by (induction u) auto

lemma split_by_plain: "list_all (\<lambda>c. \<not> P c) u \<Longrightarrow> split_by P u = [u]"
  by (induction u) auto

lemma split_ws_join:
  "list_all is_word ws \<Longrightarrow> split_ws (join '' '' ws) = ws"
proof (induction "'' ''" ws rule: join.induct)
  case 1
  then show ?case by (simp add: split_ws_def)
next
  case (2 w)
  then show ?case by (simp add: split_ws_def is_word_def split_by_plain)
next
  case (3 w v ws)
  have sp: "is_space CHR '' ''" by (simp add: is_space_def ord_def)
  have "split_by is_space (w @ CHR '' '' # join '' '' (v # ws)) = w # split_by is_space (join '' '' (v # ws))"
    using 3(2) sp by (intro split_by_append) (simp_all add: is_word_def)
  then show ?case using 3 by (simp add: split_ws_def is_word_def)
qed

lemma abbrev_values_words: "map_of road_type_abbrevs k = Some v \<Longrightarrow> is_word v"
proof -
  assume "map_of road_type_abbrevs k = Some v"
  then have "v \<in> snd ` set road_type_abbrevs"
    by (metis map_of_SomeD image_eqI snd_conv)
  moreover have "list_all is_word (map snd road_type_abbrevs)"
    by code_simp
  ultimately show ?thesis by (auto simp: list_all_iff)
qed

lemma expand_last_words: "list_all is_word ws \<Longrightarrow> list_all is_word (expand_last ws)"
  by (auto simp: expand_last_def Let_def list_all_iff abbrev_values_words
      split: option.splits dest: in_set_butlastD)

lemma expand_last_length: "length (expand_last ws) = length ws"
  by (auto simp: expand_last_def Let_def split: option.splits)

lemma expand_last_nth: "Suc i < length ws \<Longrightarrow> expand_last ws ! i = ws ! i"
  by (auto simp: expand_last_def Let_def nth_append nth_butlast split: option.splits)

lemma split_ws_format_road_name_unfolded:
  "split_ws (format_road_name s)
   = map capitalize (expand_last (split_ws (sub_digit_upper (sub_lower_upper s))))"
proof (cases "s = []")
  case True
  then show ?thesis
    by (simp add: format_road_name_def split_ws_def expand_last_def)
next
  case False
  have "list_all is_word (split_ws (sub_digit_upper (sub_lower_upper s)))"
    by (simp add: list_all_iff split_ws_words)
  then have "list_all is_word (expand_last (split_ws (sub_digit_upper (sub_lower_upper s))))"
    by (rule expand_last_words)
  then have "list_all is_word
               (map capitalize (expand_last (split_ws (sub_digit_upper (sub_lower_upper s)))))"
    by (simp add: list_all_iff capitalize_word)
  then show ?thesis
    using False by (simp add: format_road_name_def Let_def split_ws_join)
qed

lemma split_ws_format_road_name:
  "split_ws (format_road_name s) = map capitalize (expand_last (spaced_words s))"
  by (simp only: spaced_words_def split_ws_format_road_name_unfolded)

lemma expand_last_last:
  "ws \<noteq> [] \<Longrightarrow>
   last (expand_last ws)
   = (case map_of road_type_abbrevs (lower (last ws)) of Some full \<Rightarrow> full | None \<Rightarrow> last ws)"
  by (auto simp: expand_last_def Let_def split: option.splits)

text \<open>
  Claim C7. \<^verbatim>\<open>format_road_name("HunsletRd")\<close> is \<^verbatim>\<open>"Hunslet Road"\<close>,
  \<^verbatim>\<open>format_road_name("parkRow")\<close> is \<^verbatim>\<open>"Park Row"\<close> and
  \<^verbatim>\<open>format_road_name("StCeciliaSt")\<close> is \<^verbatim>\<open>"St Cecilia Street"\<close>. For every
  input, the result has as many words as the name has after the space insertion; every word
  but the last is the capitalized word of the name at that position, so an abbreviation in
  the middle of a name is never expanded; and the last word is the capitalized expansion of
  the name's last word when that is a key of the table, the capitalized last word otherwise.
\<close>

theorem format_road_name_expands_last_word_only:
  "format_road_name ''HunsletRd'' = ''Hunslet Road''
   \<and> format_road_name ''parkRow'' = ''Park Row''
   \<and> format_road_name ''StCeciliaSt'' = ''St Cecilia Street''
   \<and> length (split_ws (format_road_name s)) = length (spaced_words s)
   \<and> (\<forall>i. Suc i < length (spaced_words s) \<longrightarrow>
          split_ws (format_road_name s) ! i = capitalize (spaced_words s ! i))
   \<and> (spaced_words s \<noteq> [] \<longrightarrow>
          last (split_ws (format_road_name s))
          = capitalize (case map_of road_type_abbrevs (lower (last (spaced_words s))) of
                          Some full \<Rightarrow> full
                        | None \<Rightarrow> last (spaced_words s)))"
proof -
  have e1: "format_road_name ''HunsletRd'' = ''Hunslet Road''"
    by code_simp
  have e2: "format_road_name ''parkRow'' = ''Park Row''"
    by code_simp
  have e3: "format_road_name ''StCeciliaSt'' = ''St Cecilia Street''"
    by code_simp
  note out = split_ws_format_road_name[of s]
  have len: "length (split_ws (format_road_name s)) = length (spaced_words s)"
    by (simp add: out expand_last_length)
  have mid: "split_ws (format_road_name s) ! i = capitalize (spaced_words s ! i)"
    if "Suc i < length (spaced_words s)" for i
    using that by (simp add: out expand_last_length expand_last_nth)
  have lst: "last (split_ws (format_road_name s))
          = capitalize (case map_of road_type_abbrevs (lower (last (spaced_words s))) of
                          Some full \<Rightarrow> full
                        | None \<Rightarrow> last (spaced_words s))"
    if ne: "spaced_words s \<noteq> []"
  proof -
    have "expand_last (spaced_words s) \<noteq> []"
      using ne expand_last_length[of "spaced_words s"] by (metis length_0_conv)
    then have "last (map capitalize (expand_last (spaced_words s)))
               = capitalize (last (expand_last (spaced_words s)))"
      by (rule last_map)
    then show ?thesis
      by (simp only: out expand_last_last[OF ne])
  qed
  show ?thesis
    using e1 e2 e3 len mid lst by (intro conjI allI impI)
qed

text \<open>
  \<^verbatim>\<open>"StCeciliaSt"\<close>: the leading \<^verbatim>\<open>St\<close> stays, the trailing one becomes
  \<^verbatim>\<open>Street\<close>.
\<close>

theorem format_road_name_expands_last_word_only_witness:
  "spaced_words ''StCeciliaSt'' = [''St'', ''Cecilia'', ''St'']
   \<and> split_ws (format_road_name ''StCeciliaSt'') = [''St'', ''Cecilia'', ''Street'']
   \<and> split_ws (format_road_name ''StCeciliaSt'') ! 0 = capitalize (spaced_words ''StCeciliaSt'' ! 0)
   \<and> last (split_ws (format_road_name ''StCeciliaSt'')) = ''Street''"
proof -
  have w: "spaced_words ''StCeciliaSt'' = [''St'', ''Cecilia'', ''St'']"
    by code_simp
  have o: "split_ws (format_road_name ''StCeciliaSt'') = [''St'', ''Cecilia'', ''Street'']"
    by code_simp
  have c: "capitalize ''St'' = ''St''"
    by code_simp
  show ?thesis
    using format_road_name_expands_last_word_only[of "''StCeciliaSt''"] w o c by simp
qed

subsection \<open>Sensor-name parsing\<close>

lemma starts_with_iff: "starts_with p s \<longleftrightarrow> (\<exists>v. s = p @ v)"
  by (induction p s rule: starts_with.induct) auto

lemma contains_iff: "contains p s \<longleftrightarrow> (\<exists>u v. s = u @ p @ v)"
proof (induction s)
  case Nil
  then show ?case by (auto simp: starts_with_iff)
next
  case (Cons c cs)
  show ?case
  proof
    assume "contains p (c # cs)"
    then consider "starts_with p (c # cs)" | "contains p cs" by auto
    then show "\<exists>u v. c # cs = u @ p @ v"
    proof cases
      case 1
      then obtain v where "c # cs = [] @ p @ v" by (auto simp: starts_with_iff)
      then show ?thesis by blast
    next
      case 2
      then obtain u v where "cs = u @ p @ v" using Cons by auto
      then have "c # cs = (c # u) @ p @ v" by simp
      then show ?thesis by blast
    qed
  next
    assume "\<exists>u v. c # cs = u @ p @ v"
    then obtain u v where uv: "c # cs = u @ p @ v" by auto
    show "contains p (c # cs)"
    proof (cases u)
      case Nil
      then have "starts_with p (c # cs)" using uv by (auto simp: starts_with_iff)
      then show ?thesis by simp
    next
      case (Cons a u')
      then have "cs = u' @ p @ v" using uv by simp
      then have "contains p cs" using Cons.IH by auto
      then show ?thesis by simp
    qed
  qed
qed

lemma split_on_nonempty: "split_on sep s \<noteq> []"
  by (simp add: split_on_def split_by_nonempty)

lemma extract_camera_id_nonempty:
  "s \<noteq> [] \<Longrightarrow>
   \<exists>cid cn rn. extract_camera_id (Some s) = (Some cid, cn, Some rn, Some (counter_type_of (lower s)))"
proof -
  assume ne: "s \<noteq> []"
  define cb where "cb = (if length (split_first CHR ''_'' s) = 2 \<and> match_cordon (split_first CHR ''_'' s ! 0)
                    then (Some (upper (split_first CHR ''_'' s ! 0)), split_first CHR ''_'' s ! 1)
                    else (None, s))"
  obtain raw rest where sp: "split_on CHR ''_'' (snd cb) = raw # rest"
    using split_on_nonempty[of "CHR ''_''" "snd cb"] by (cases "split_on CHR ''_'' (snd cb)") auto
  show ?thesis
    using ne sp
    by (simp add: extract_camera_id_def Let_def cb_def[symmetric] split_beta)
qed

text \<open>
  Claim C5, on the code. For \<^verbatim>\<open>"S40_WoodhouseLn_road_wyca001"\<close> and for
  \<^verbatim>\<open>"S40_WoodhouseLn_pathLHS_wyca001"\<close> the function returns cordon \<^verbatim>\<open>"S40"\<close>, road
  name \<^verbatim>\<open>"Woodhouse Lane"\<close> and counter type \<^verbatim>\<open>"segment"\<close>, and both names get one
  camera id; but that id is \<^verbatim>\<open>"S40_woodhousel"\<close>, not the
  \<^verbatim>\<open>"S40_woodhouseln"\<close> of the docstring: the substitution that strips a trailing compass
  letter also strips the \<^verbatim>\<open>n\<close> that ends \<^verbatim>\<open>woodhouseln\<close>.
\<close>

theorem extract_camera_id_woodhouse:
  "extract_camera_id (Some ''S40_WoodhouseLn_road_wyca001'')
     = (Some ''S40_woodhousel'', Some ''S40'', Some ''Woodhouse Lane'', Some ''segment'')
   \<and> extract_camera_id (Some ''S40_WoodhouseLn_pathLHS_wyca001'')
     = (Some ''S40_woodhousel'', Some ''S40'', Some ''Woodhouse Lane'', Some ''segment'')
   \<and> sub_trailing_compass (lower ''WoodhouseLn'') = ''woodhousel''"
proof -
  have a: "extract_camera_id (Some ''S40_WoodhouseLn_road_wyca001'')
     = (Some ''S40_woodhousel'', Some ''S40'', Some ''Woodhouse Lane'', Some ''segment'')"
    by code_simp
  have b: "extract_camera_id (Some ''S40_WoodhouseLn_pathLHS_wyca001'')
     = (Some ''S40_woodhousel'', Some ''S40'', Some ''Woodhouse Lane'', Some ''segment'')"
    by code_simp
  have c: "sub_trailing_compass (lower ''WoodhouseLn'') = ''woodhousel''"
    by code_simp
  show ?thesis using a b c by (intro conjI)
qed

text \<open>
  For \<^verbatim>\<open>"S40_Vicarln_crossing_south_lptip001"\<close> the road name is \<^verbatim>\<open>"Vicarln"\<close>, as
  the docstring of the function has it, and not \<^verbatim>\<open>"Vicar Lane"\<close>: the token has no
  upper-case letter after a lower-case one, so no space is inserted and its only word,
  \<^verbatim>\<open>vicarln\<close>, is not a key of the table.
\<close>

theorem extract_camera_id_vicarln_counterexample:
  "extract_camera_id (Some ''S40_Vicarln_crossing_south_lptip001'')
     = (Some ''S40_vicarl'', Some ''S40'', Some ''Vicarln'', Some ''crossing'')
   \<and> fst (snd (snd (extract_camera_id (Some ''S40_Vicarln_crossing_south_lptip001''))))
     \<noteq> Some ''Vicar Lane''"
proof -
  have a: "extract_camera_id (Some ''S40_Vicarln_crossing_south_lptip001'')
     = (Some ''S40_vicarl'', Some ''S40'', Some ''Vicarln'', Some ''crossing'')"
    by code_simp
  show ?thesis by (simp add: a)
qed

text \<open>
  Claim C6, as the code has it. \<^verbatim>\<open>extract_camera_id("S40_Vicarln_crossing_south_lptip001")\<close>
  returns cordon \<^verbatim>\<open>"S40"\<close>, counter type \<^verbatim>\<open>"crossing"\<close> and road name
  \<^verbatim>\<open>"Vicarln"\<close>. For every non-empty name the counter type is decided on the whole
  lower-case name: \<^verbatim>\<open>"crossing"\<close> when it contains \<^verbatim>\<open>"_crossing"\<close>, whether or not it
  also contains a segment indicator; otherwise \<^verbatim>\<open>"segment"\<close> when it contains one of the
  segment indicators; otherwise \<^verbatim>\<open>"unknown"\<close>.
\<close>

theorem extract_camera_id_counter_type:
  "extract_camera_id (Some ''S40_Vicarln_crossing_south_lptip001'')
     = (Some ''S40_vicarl'', Some ''S40'', Some ''Vicarln'', Some ''crossing'')
   \<and> (s \<noteq> [] \<longrightarrow>
        (\<exists>cid cn rn. extract_camera_id (Some s) =
           (cid, cn, rn,
            Some (if \<exists>u v. lower s = u @ ''_crossing'' @ v then ''crossing''
                  else if \<exists>x \<in> set segment_indicators. \<exists>u v. lower s = u @ x @ v
                       then ''segment''
                  else ''unknown''))))"
proof (rule conjI)
  show "extract_camera_id (Some ''S40_Vicarln_crossing_south_lptip001'')
     = (Some ''S40_vicarl'', Some ''S40'', Some ''Vicarln'', Some ''crossing'')"
    by code_simp
next
  have ct: "counter_type_of (lower s)
        = (if \<exists>u v. lower s = u @ ''_crossing'' @ v then ''crossing''
           else if \<exists>x \<in> set segment_indicators. \<exists>u v. lower s = u @ x @ v then ''segment''
           else ''unknown'')"
    by (simp only: counter_type_of_def contains_iff list_ex_iff)
  show "s \<noteq> [] \<longrightarrow>
        (\<exists>cid cn rn. extract_camera_id (Some s) =
           (cid, cn, rn,
            Some (if \<exists>u v. lower s = u @ ''_crossing'' @ v then ''crossing''
                  else if \<exists>x \<in> set segment_indicators. \<exists>u v. lower s = u @ x @ v
                       then ''segment''
                  else ''unknown'')))"
  proof (rule impI)
    assume "s \<noteq> []"
    then obtain cid cn rn where
      "extract_camera_id (Some s) = (Some cid, cn, Some rn, Some (counter_type_of (lower s)))"
      using extract_camera_id_nonempty by blast
    then show "\<exists>cid cn rn. extract_camera_id (Some s) =
           (cid, cn, rn,
            Some (if \<exists>u v. lower s = u @ ''_crossing'' @ v then ''crossing''
                  else if \<exists>x \<in> set segment_indicators. \<exists>u v. lower s = u @ x @ v
                       then ''segment''
                  else ''unknown''))"
      unfolding ct by blast
  qed
qed

text \<open>
  A name with both \<^verbatim>\<open>"_crossing"\<close> and \<^verbatim>\<open>"_road"\<close> is a crossing.
\<close>

theorem extract_camera_id_counter_type_witness:
  "(\<exists>u v. lower ''S41_ParkRow_crossing_road'' = u @ ''_crossing'' @ v)
   \<and> (\<exists>u v. lower ''S41_ParkRow_crossing_road'' = u @ ''_road'' @ v)
   \<and> extract_camera_id (Some ''S41_ParkRow_crossing_road'')
       = (Some ''S41_parkro'', Some ''S41'', Some ''Park Row'', Some ''crossing'')"
proof -
  have c: "contains ''_crossing'' (lower ''S41_ParkRow_crossing_road'')"
    by code_simp
  have r: "contains ''_road'' (lower ''S41_ParkRow_crossing_road'')"
    by code_simp
  have e: "extract_camera_id (Some ''S41_ParkRow_crossing_road'')
       = (Some ''S41_parkro'', Some ''S41'', Some ''Park Row'', Some ''crossing'')"
    by code_simp
  show ?thesis
    using extract_camera_id_counter_type[of "''S41_ParkRow_crossing_road''"]
      c[unfolded contains_iff] r[unfolded contains_iff] e
    by simp
qed

text \<open>
  Claim C10. For every non-empty sensor name the camera id, the road name and the counter
  type are not null; splitting a string at underscores never gives the empty list, so the
  branch that sets the road name to null is never taken; and the tuple of four nulls is
  returned for the null and the empty input only.
\<close>

theorem extract_camera_id_never_null:
  "(s \<noteq> [] \<longrightarrow> (\<exists>cid cn rn ct. extract_camera_id (Some s) = (Some cid, cn, Some rn, Some ct)))
   \<and> split_on CHR ''_'' name_body \<noteq> []
   \<and> (extract_camera_id x = (None, None, None, None) \<longleftrightarrow> x = None \<or> x = Some [])"
proof (intro conjI)
  show "s \<noteq> [] \<longrightarrow> (\<exists>cid cn rn ct. extract_camera_id (Some s) = (Some cid, cn, Some rn, Some ct))"
    using extract_camera_id_nonempty by blast
  show "split_on CHR ''_'' name_body \<noteq> []"
    by (rule split_on_nonempty)
  show "extract_camera_id x = (None, None, None, None) \<longleftrightarrow> x = None \<or> x = Some []"
  proof (cases x)
    case None
    then show ?thesis by (simp add: extract_camera_id_def)
  next
    case (Some t)
    show ?thesis
    proof (cases "t = []")
      case True
      then show ?thesis using Some by (simp add: extract_camera_id_def)
    next
      case False
      then obtain cid cn rn where
        "extract_camera_id (Some t) = (Some cid, cn, Some rn, Some (counter_type_of (lower t)))"
        using extract_camera_id_nonempty by blast
      then show ?thesis using Some False by simp
    qed
  qed
qed

text \<open>
  The name \<^verbatim>\<open>"_"\<close>: its first segment is the empty string, and camera id and road name
  are empty strings, not null.
\<close>

theorem extract_camera_id_never_null_witness:
  "extract_camera_id (Some ''_'') = (Some [], None, Some [], Some ''unknown'')
   \<and> split_on CHR ''_'' ''_'' = [[], []]
   \<and> split_on CHR ''_'' [] = [[]]
   \<and> extract_camera_id (Some []) = (None, None, None, None)
   \<and> extract_camera_id None = (None, None, None, None)"
proof -
  have a: "extract_camera_id (Some ''_'') = (Some [], None, Some [], Some ''unknown'')"
    by code_simp
  have b: "split_on CHR ''_'' ''_'' = [[], []]" "split_on CHR ''_'' [] = [[]]"
    by code_simp+
  show ?thesis
    using extract_camera_id_never_null[of "''_''" "''_''" "Some []"]
      extract_camera_id_never_null[of "''_''" "[]" "None"] a b
    by simp
qed

subsection \<open>Count records\<close>

lemma emitting_Nil: "emitting [] = []"
  by (simp add: emitting_def)

lemma emitting_Cons:
  "emitting ((c, cnt) # rest)
   = (if c = ''total'' then emitting rest
      else case cnt of None \<Rightarrow> emitting rest | Some n \<Rightarrow> (c, n) # emitting rest)"
  by (cases cnt) (simp_all add: emitting_def)

lemma unified_mode_get:
  "(case class_map c of None \<Rightarrow> c | Some m \<Rightarrow> m) = unified_mode class_map c"
  by (cases "class_map c") (auto simp: unified_mode_def dom_def)

lemma class_loop_append:
  "class_loop class_map cid ft tt d dir_data all_records
   = all_records @
     map (\<lambda>(c, n). \<lparr>cr_countline_id = cid, cr_timestamp = ft, cr_from = ft, cr_to = tt,
                     cr_direction = d, cr_class = c, cr_mode = unified_mode class_map c,
                     cr_count = n\<rparr>)
         (emitting dir_data)"
proof (induction dir_data arbitrary: all_records)
  case Nil
  then show ?case by (simp add: emitting_Nil)
next
  case (Cons item rest)
  obtain c cnt where item: "item = (c, cnt)" by (cases item)
  show ?case
  proof (cases cnt)
    case None
    then show ?thesis unfolding item by (simp add: emitting_Cons Cons.IH)
  next
    case (Some n)
    then show ?thesis
      unfolding item by (simp add: emitting_Cons Cons.IH unified_mode_get Let_def)
  qed
qed


lemma emitting_iff:
  "(c, n) \<in> set (emitting dir_data) \<longleftrightarrow> c \<noteq> ''total'' \<and> (c, Some n) \<in> set dir_data"
proof (induction dir_data)
  case Nil
  then show ?case by (simp add: emitting_Nil)
next
  case (Cons item rest)
  obtain c' cnt where item: "item = (c', cnt)" by (cases item)
  show ?case
  proof (cases cnt)
    case None
    then show ?thesis unfolding item using Cons.IH by (simp add: emitting_Cons)
  next
    case (Some m)
    then show ?thesis unfolding item using Cons.IH by (auto simp: emitting_Cons)
  qed
qed

lemma emitting_fst: "c \<in> fst ` set (emitting dir_data) \<Longrightarrow> c \<in> fst ` set dir_data"
proof -
  assume "c \<in> fst ` set (emitting dir_data)"
  then obtain n where "(c, n) \<in> set (emitting dir_data)" by auto
  then have "(c, Some n) \<in> set dir_data" by (simp add: emitting_iff)
  then show ?thesis by (metis fst_conv image_eqI)
qed

lemma emitting_distinct:
  "distinct (map fst dir_data) \<Longrightarrow> distinct (map fst (emitting dir_data))"
proof (induction dir_data)
  case Nil
  then show ?case by (simp add: emitting_Nil)
next
  case (Cons item rest)
  obtain c cnt where item: "item = (c, cnt)" by (cases item)
  have notin: "c \<notin> fst ` set (emitting rest)"
    using Cons.prems emitting_fst[of c rest] unfolding item by auto
  have ih: "distinct (map fst (emitting rest))"
    using Cons by simp
  show ?case
  proof (cases cnt)
    case None
    then show ?thesis unfolding item using ih by (simp add: emitting_Cons)
  next
    case (Some m)
    then show ?thesis unfolding item using ih notin by (simp add: emitting_Cons)
  qed
qed

lemma count_distinct_fst:
  "distinct (map fst xs) \<Longrightarrow>
   length (filter (\<lambda>x. fst x = c) xs) = (if c \<in> fst ` set xs then 1 else 0)"
proof (induction xs)
  case Nil
  then show ?case by simp
next
  case (Cons x xs)
  then have ih: "length (filter (\<lambda>x. fst x = c) xs) = (if c \<in> fst ` set xs then 1 else 0)"
    by simp
  have nx: "fst x \<notin> fst ` set xs"
    using Cons.prems by simp
  show ?case
  proof (cases "fst x = c")
    case True
    then have "c \<notin> fst ` set xs" using nx by simp
    then show ?thesis using True ih by simp
  next
    case False
    then show ?thesis using ih by simp
  qed
qed

lemma emitting_fst_iff:
  "c \<in> fst ` set (emitting dir_data) \<longleftrightarrow> c \<noteq> ''total'' \<and> (\<exists>n. (c, Some n) \<in> set dir_data)"
proof
  assume "c \<in> fst ` set (emitting dir_data)"
  then obtain n where "(c, n) \<in> set (emitting dir_data)" by auto
  then show "c \<noteq> ''total'' \<and> (\<exists>n. (c, Some n) \<in> set dir_data)"
    using emitting_iff by blast
next
  assume "c \<noteq> ''total'' \<and> (\<exists>n. (c, Some n) \<in> set dir_data)"
  then obtain n where "(c, n) \<in> set (emitting dir_data)"
    using emitting_iff by blast
  then show "c \<in> fst ` set (emitting dir_data)"
    by (metis fst_conv image_eqI)
qed

text \<open>
  Claim C4. For every payload of one direction, the loop over its class labels appends, in
  the order of the payload, one record for each label that is not \<^verbatim>\<open>total\<close> and has a
  count that is not null, and nothing for \<^verbatim>\<open>total\<close> and for a null count; with the
  distinct labels of a dictionary that is exactly one record for each such label and none
  for any other. The unified mode of a record is the translation of its label when the
  label is a key of the table, and the label itself, unchanged, when it is not.
\<close>

theorem class_loop_one_record_per_class:
  "class_loop class_map cid ft tt d dir_data all_records
   = all_records @
     map (\<lambda>(c, n). \<lparr>cr_countline_id = cid, cr_timestamp = ft, cr_from = ft, cr_to = tt,
                     cr_direction = d, cr_class = c, cr_mode = unified_mode class_map c,
                     cr_count = n\<rparr>)
         (emitting dir_data)
   \<and> (\<forall>c n. (c, n) \<in> set (emitting dir_data) \<longleftrightarrow> c \<noteq> ''total'' \<and> (c, Some n) \<in> set dir_data)
   \<and> (distinct (map fst dir_data) \<longrightarrow>
        (\<forall>c. length (filter (\<lambda>r. cr_class r = c)
                       (class_loop class_map cid ft tt d dir_data []))
             = (if c \<noteq> ''total'' \<and> (\<exists>n. (c, Some n) \<in> set dir_data) then 1 else 0)))
   \<and> (\<forall>c m. class_map c = Some m \<longrightarrow> unified_mode class_map c = m)
   \<and> (\<forall>c. class_map c = None \<longrightarrow> unified_mode class_map c = c)"
proof (intro conjI)
  show "class_loop class_map cid ft tt d dir_data all_records
   = all_records @
     map (\<lambda>(c, n). \<lparr>cr_countline_id = cid, cr_timestamp = ft, cr_from = ft, cr_to = tt,
                     cr_direction = d, cr_class = c, cr_mode = unified_mode class_map c,
                     cr_count = n\<rparr>)
         (emitting dir_data)"
    by (rule class_loop_append)
  show "\<forall>c n. (c, n) \<in> set (emitting dir_data) \<longleftrightarrow> c \<noteq> ''total'' \<and> (c, Some n) \<in> set dir_data"
    by (simp add: emitting_iff)
  show "distinct (map fst dir_data) \<longrightarrow>
        (\<forall>c. length (filter (\<lambda>r. cr_class r = c)
                       (class_loop class_map cid ft tt d dir_data []))
             = (if c \<noteq> ''total'' \<and> (\<exists>n. (c, Some n) \<in> set dir_data) then 1 else 0))"
  proof (intro impI allI)
    fix c
    assume "distinct (map fst dir_data)"
    then have dist: "distinct (map fst (emitting dir_data))"
      by (rule emitting_distinct)
    have "length (filter (\<lambda>r. cr_class r = c) (class_loop class_map cid ft tt d dir_data []))
          = length (filter (\<lambda>x. fst x = c) (emitting dir_data))"
      by (simp add: class_loop_append filter_map comp_def split_beta)
    also have "\<dots> = (if c \<in> fst ` set (emitting dir_data) then 1 else 0)"
      using dist by (rule count_distinct_fst)
    also have "\<dots> = (if c \<noteq> ''total'' \<and> (\<exists>n. (c, Some n) \<in> set dir_data) then 1 else 0)"
      by (simp only: emitting_fst_iff)
    finally show "length (filter (\<lambda>r. cr_class r = c)
                       (class_loop class_map cid ft tt d dir_data []))
             = (if c \<noteq> ''total'' \<and> (\<exists>n. (c, Some n) \<in> set dir_data) then 1 else 0)" .
  qed
  show "\<forall>c m. class_map c = Some m \<longrightarrow> unified_mode class_map c = m"
    by (auto simp: unified_mode_def)
  show "\<forall>c. class_map c = None \<longrightarrow> unified_mode class_map c = c"
    by (auto simp: unified_mode_def)
qed

text \<open>
  The example payload: \<^verbatim>\<open>cyclist\<close> is translated to \<^verbatim>\<open>bike\<close>, \<^verbatim>\<open>total\<close> and
  the null count of \<^verbatim>\<open>bus\<close> give nothing, \<^verbatim>\<open>escooter\<close> is passed through.
\<close>

theorem class_loop_one_record_per_class_witness:
  "class_loop example_class_map ''101'' (Some ''2024-01-01T00:00:00.000Z'')
     (Some ''2024-01-01T01:00:00.000Z'') ''clockwise'' example_dir_data []
   = [\<lparr>cr_countline_id = ''101'', cr_timestamp = Some ''2024-01-01T00:00:00.000Z'',
       cr_from = Some ''2024-01-01T00:00:00.000Z'', cr_to = Some ''2024-01-01T01:00:00.000Z'',
       cr_direction = ''clockwise'', cr_class = ''cyclist'', cr_mode = ''bike'',
       cr_count = 3\<rparr>,
      \<lparr>cr_countline_id = ''101'', cr_timestamp = Some ''2024-01-01T00:00:00.000Z'',
       cr_from = Some ''2024-01-01T00:00:00.000Z'', cr_to = Some ''2024-01-01T01:00:00.000Z'',
       cr_direction = ''clockwise'', cr_class = ''escooter'', cr_mode = ''escooter'',
       cr_count = 7\<rparr>]
   \<and> distinct (map fst example_dir_data)
   \<and> emitting example_dir_data = [(''cyclist'', 3), (''escooter'', 7)]
   \<and> example_class_map ''cyclist'' = Some ''bike''
   \<and> example_class_map ''escooter'' = None
   \<and> unified_mode example_class_map ''cyclist'' = ''bike''
   \<and> unified_mode example_class_map ''escooter'' = ''escooter''"
proof -
  have e: "emitting example_dir_data = [(''cyclist'', 3), (''escooter'', 7)]"
    by (simp add: example_dir_data_def emitting_Cons emitting_Nil)
  have d: "distinct (map fst example_dir_data)"
    by (simp add: example_dir_data_def)
  have m: "example_class_map ''cyclist'' = Some ''bike''" "example_class_map ''escooter'' = None"
    by (simp_all add: example_class_map_def)
  note t = class_loop_one_record_per_class[of example_class_map "''101''"
      "Some ''2024-01-01T00:00:00.000Z''" "Some ''2024-01-01T01:00:00.000Z''" "''clockwise''"
      example_dir_data "[]"]
  have u: "unified_mode example_class_map ''cyclist'' = ''bike''"
    "unified_mode example_class_map ''escooter'' = ''escooter''"
    using t m by blast+
  show ?thesis
    using t e d m u by simp
qed

subsection \<open>Requests and responses\<close>

lemma prepend_simps:
  "prepend acc (Done rs) = Done (acc @ rs)"
  "prepend acc (Raised rs) = Raised (acc @ rs)"
  "prepend [] p = p"
  "prepend acc (prepend acc' p) = prepend (acc @ acc') p"
  by (simp_all add: prepend_def split: parsed.splits)

lemma records_of_simps:
  "records_of (Done rs) = rs"
  "records_of (Raised rs) = rs"
  "records_of (prepend acc p) = acc @ records_of p"
  by (simp_all add: records_of_def prepend_def split: parsed.splits)


lemma direction_loop_append:
  "direction_loop class_map cid bucket ds all_records
   = prepend all_records (direction_loop class_map cid bucket ds [])"
proof (induction ds arbitrary: all_records)
  case Nil
  then show ?case by (simp add: prepend_simps)
next
  case (Cons d rest)
  show ?case
  proof (cases "cb_directions bucket d")
    case None
    then show ?thesis by (simp add: Cons.IH[of all_records])
  next
    case (Some v)
    show ?thesis
    proof (cases v)
      case Ill
      then show ?thesis using Some by (simp add: prepend_simps)
    next
      case (Well dir_data)
      show ?thesis
      proof (cases "dir_data = []")
        case True
        then show ?thesis using Some Well by (simp add: Cons.IH[of all_records])
      next
        case False
        let ?c = "class_loop class_map cid (cb_from bucket) (cb_to bucket) d dir_data"
        have c: "?c all_records = all_records @ ?c []"
          by (simp add: class_loop_append)
        have "direction_loop class_map cid bucket rest (?c all_records)
              = prepend (all_records @ ?c []) (direction_loop class_map cid bucket rest [])"
          by (subst Cons.IH, subst c) simp
        moreover have "prepend all_records (direction_loop class_map cid bucket rest (?c []))
              = prepend (all_records @ ?c []) (direction_loop class_map cid bucket rest [])"
          by (subst Cons.IH) (simp add: prepend_simps)
        ultimately show ?thesis using Some Well False by simp
      qed
    qed
  qed
qed

lemma record_loop_append:
  "record_loop class_map cid items all_records
   = prepend all_records (record_loop class_map cid items [])"
proof (induction items arbitrary: all_records)
  case Nil
  then show ?case by (simp add: prepend_simps)
next
  case (Cons item rest)
  let ?ds = "[''clockwise'', ''anti_clockwise'']"
  show ?case
  proof (cases item)
    case Ill
    then show ?thesis by (simp add: prepend_simps)
  next
    case (Well b)
    have d: "direction_loop class_map cid b ?ds all_records
             = prepend all_records (direction_loop class_map cid b ?ds [])"
      by (rule direction_loop_append)
    show ?thesis
    proof (cases "direction_loop class_map cid b ?ds []")
      case (Raised rs)
      then show ?thesis using Well d by (simp add: prepend_simps)
    next
      case (Done rs)
      have "record_loop class_map cid rest (all_records @ rs)
            = prepend (all_records @ rs) (record_loop class_map cid rest [])"
        by (rule Cons.IH)
      moreover have "prepend all_records (record_loop class_map cid rest rs)
            = prepend (all_records @ rs) (record_loop class_map cid rest [])"
        by (subst Cons.IH) (simp add: prepend_simps)
      ultimately show ?thesis using Well d Done by (simp add: prepend_simps)
    qed
  qed
qed

lemma countline_loop_append:
  "countline_loop class_map data all_records
   = prepend all_records (countline_loop class_map data [])"
proof (induction data arbitrary: all_records)
  case Nil
  then show ?case by (simp add: prepend_simps)
next
  case (Cons entry rest)
  obtain cid records where entry: "entry = (cid, records)" by (cases entry)
  show ?case
  proof (cases records)
    case None
    then show ?thesis unfolding entry by (simp add: Cons.IH[of all_records])
  next
    case (Some v)
    show ?thesis
    proof (cases v)
      case Ill
      then show ?thesis unfolding entry using Some by (simp add: prepend_simps)
    next
      case (Well items)
      show ?thesis
      proof (cases "items = []")
        case True
        then show ?thesis unfolding entry using Some Well by (simp add: Cons.IH[of all_records])
      next
        case False
        have r: "record_loop class_map cid items all_records
                 = prepend all_records (record_loop class_map cid items [])"
          by (rule record_loop_append)
        show ?thesis
        proof (cases "record_loop class_map cid items []")
          case (Raised rs)
          then show ?thesis unfolding entry using Some Well False r by (simp add: prepend_simps)
        next
          case (Done rs)
          have "countline_loop class_map rest (all_records @ rs)
                = prepend (all_records @ rs) (countline_loop class_map rest [])"
            by (rule Cons.IH)
          moreover have "prepend all_records (countline_loop class_map rest rs)
                = prepend (all_records @ rs) (countline_loop class_map rest [])"
            by (subst Cons.IH) (simp add: prepend_simps)
          ultimately show ?thesis unfolding entry using Some Well False r Done
            by (simp add: prepend_simps)
        qed
      qed
    qed
  qed
qed

lemma parse_counts_append:
  "parse_counts class_map data all_records
   = prepend all_records (parse_counts class_map data [])"
proof (cases data)
  case Ill
  then show ?thesis by (simp add: parse_counts_def prepend_simps)
next
  case (Well items)
  then show ?thesis
    using countline_loop_append[of class_map items all_records] by (simp add: parse_counts_def)
qed




lemma handle_response_contribution:
  assumes "\<And>data acc. parse data acc = prepend acc (parse data [])"
  shows "handle_response parse resp all_records
         = all_records
           @ (case successful_payload resp of
                None \<Rightarrow> []
              | Some data \<Rightarrow> records_of (parse data []))"
proof (cases resp)
  case Raises
  then show ?thesis
    by (simp add: handle_response_def successful_payload_def)
next
  case (Response status_code body)
  show ?thesis
  proof (cases body)
    case None
    then show ?thesis using Response
      by (simp add: handle_response_def successful_payload_def)
  next
    case (Some data)
    have "(case parse data all_records of Done rs \<Rightarrow> rs | Raised rs \<Rightarrow> rs)
          = all_records @ records_of (parse data [])"
      by (subst assms) (simp add: prepend_def records_of_def split: parsed.splits)
    then show ?thesis using Response Some
      by (simp add: handle_response_def successful_payload_def)
  qed
qed

lemma date_loop_contributions:
  assumes "\<And>data acc. parse data acc = prepend acc (parse data [])"
  shows "date_loop http parse path time_bucket id_batch date_bs (all_records, sent)
         = (all_records @
            concat (map (contribution http parse)
                      (enumerate (length sent)
                         (map (mk_request path time_bucket id_batch) date_bs))),
            sent @ map (mk_request path time_bucket id_batch) date_bs)"
proof (induction date_bs arbitrary: all_records sent)
  case Nil
  then show ?case by simp
next
  case (Cons date_batch rest)
  show ?case
    by (simp add: Let_def Cons.IH handle_response_contribution[OF assms] contribution_def)
qed

lemma id_loop_contributions:
  assumes "\<And>data acc. parse data acc = prepend acc (parse data [])"
  shows "id_loop http parse path time_bucket id_bs date_bs (all_records, sent)
         = (all_records @
            concat (map (contribution http parse)
                      (enumerate (length sent)
                         (sub_batch_requests path time_bucket id_bs date_bs))),
            sent @ sub_batch_requests path time_bucket id_bs date_bs)"
proof (induction id_bs arbitrary: all_records sent)
  case Nil
  then show ?case by (simp add: sub_batch_requests_def)
next
  case (Cons id_batch rest)
  show ?case
    by (simp add: date_loop_contributions[OF assms] Cons.IH sub_batch_requests_def
        enumerate_append_eq)
qed

lemma id_loop_from_start:
  assumes "\<And>data acc. parse data acc = prepend acc (parse data [])"
  shows "id_loop http parse path time_bucket id_bs date_bs ([], [])
         = (contributions http parse (sub_batch_requests path time_bucket id_bs date_bs),
            sub_batch_requests path time_bucket id_bs date_bs)"
  by (simp add: id_loop_contributions[OF assms] contributions_def)


lemma get_counts_result:
  "batch_date_range start_time end_time 7 = Some (Inr date_bs) \<Longrightarrow>
   get_counts http class_map ids start_time end_time time_bucket bidirectional
   = Some (Inr (finish_counts bidirectional
                  (contributions http (parse_counts class_map)
                     (sub_batch_requests ''/countline/counts'' time_bucket (id_batches ids) date_bs)),
                sub_batch_requests ''/countline/counts'' time_bucket (id_batches ids) date_bs))"
  by (simp add: get_counts_def id_loop_from_start[OF parse_counts_append])






















subsection \<open>Aggregation over directions\<close>

lemma agg_key_mk_agg: "agg_key (mk_agg k n) = k"
  by (cases k) (simp add: agg_key_def mk_agg_def)

lemma ag_count_mk_agg: "ag_count (mk_agg k n) = n"
  by (cases k) (simp add: mk_agg_def)

lemma groupby_sum_keys:
  "map agg_key (groupby_sum rs) = sort (remdups (List.map_filter key_of rs))"
  by (simp add: groupby_sum_def comp_def agg_key_mk_agg)

lemma groupby_sum_Nil: "groupby_sum [] = []"
  by (simp add: groupby_sum_def)

lemma in_map_filter_iff:
  "y \<in> set (List.map_filter f xs) \<longleftrightarrow> (\<exists>x \<in> set xs. f x = Some y)"
  by (induction xs) (auto split: option.splits)

lemma groupby_sum_key_set:
  "k \<in> set (map agg_key (groupby_sum rs)) \<longleftrightarrow> (\<exists>r \<in> set rs. key_of r = Some k)"
  by (simp add: groupby_sum_keys in_map_filter_iff)

lemma groupby_sum_counts:
  "a \<in> set (groupby_sum rs) \<Longrightarrow>
   ag_count a
   = column_sum (count_dtype (map cr_count rs))
       (map cr_count (filter (\<lambda>r. key_of r = Some (agg_key a)) rs))"
  by (auto simp: groupby_sum_def agg_key_mk_agg ag_count_mk_agg group_sum_def)

lemma count_dtype_Int64_iff:
  "count_dtype counts = Int64 \<longleftrightarrow> (\<forall>n \<in> set counts. - (2 ^ 63) \<le> n \<and> n < 2 ^ 63)"
proof
  assume "count_dtype counts = Int64"
  then have a: "\<not> list_ex (\<lambda>n. n < - (2 ^ 63) \<or> 2 ^ 64 \<le> n) counts"
    and b: "\<not> list_ex (\<lambda>n. 2 ^ 63 \<le> n) counts"
    by (simp_all add: count_dtype_def split: if_splits)
  show "\<forall>n \<in> set counts. - (2 ^ 63) \<le> n \<and> n < 2 ^ 63"
  proof
    fix n assume n: "n \<in> set counts"
    have "\<not> (n < - (2 ^ 63) \<or> 2 ^ 64 \<le> n)" using a n by (auto simp: list_ex_iff)
    moreover have "\<not> 2 ^ 63 \<le> n" using b n by (auto simp: list_ex_iff)
    ultimately show "- (2 ^ 63) \<le> n \<and> n < 2 ^ 63" by simp
  qed
next
  assume h: "\<forall>n \<in> set counts. - (2 ^ 63) \<le> n \<and> n < 2 ^ 63"
  have a: "\<not> list_ex (\<lambda>n. n < - (2 ^ 63) \<or> 2 ^ 64 \<le> n) counts"
    unfolding list_ex_iff
  proof
    assume "\<exists>n \<in> set counts. n < - (2 ^ 63) \<or> 2 ^ 64 \<le> n"
    then obtain n where n: "n \<in> set counts" and c: "n < - (2 ^ 63) \<or> 2 ^ 64 \<le> n" by blast
    have "- (2 ^ 63) \<le> n \<and> n < 2 ^ 63" using h n by blast
    then show False using c by simp
  qed
  have b: "\<not> list_ex (\<lambda>n. 2 ^ 63 \<le> n) counts"
    unfolding list_ex_iff
  proof
    assume "\<exists>n \<in> set counts. 2 ^ 63 \<le> n"
    then obtain n where n: "n \<in> set counts" and c: "2 ^ 63 \<le> n" by blast
    have "- (2 ^ 63) \<le> n \<and> n < 2 ^ 63" using h n by blast
    then show False using c by simp
  qed
  show "count_dtype counts = Int64"
    using a b by (simp add: count_dtype_def)
qed

lemma wrap_int64_id: "- (2 ^ 63) \<le> n \<Longrightarrow> n < 2 ^ 63 \<Longrightarrow> wrap_int64 n = n"
  by (simp add: wrap_int64_def)

lemma column_sum_exact:
  "\<forall>n \<in> set counts. - (2 ^ 63) \<le> n \<and> n < 2 ^ 63 \<Longrightarrow>
   - (2 ^ 63) \<le> sum_list xs \<Longrightarrow> sum_list xs < 2 ^ 63 \<Longrightarrow>
   column_sum (count_dtype counts) xs = sum_list xs"
proof -
  assume "\<forall>n \<in> set counts. - (2 ^ 63) \<le> n \<and> n < 2 ^ 63"
  then have "count_dtype counts = Int64" by (simp only: count_dtype_Int64_iff)
  moreover assume "- (2 ^ 63) \<le> sum_list xs" "sum_list xs < 2 ^ 63"
  ultimately show ?thesis by (simp add: column_sum_def wrap_int64_id)
qed

lemma groupby_sum_pair:
  "key_of r1 = Some k \<Longrightarrow> key_of r2 = Some k \<Longrightarrow>
   groupby_sum [r1, r2]
   = [mk_agg k (column_sum (count_dtype [cr_count r1, cr_count r2]) [cr_count r1, cr_count r2])]"
  by (simp add: groupby_sum_def group_sum_def)

lemma finish_counts_True: "finish_counts True rs = Aggregated (groupby_sum rs)"
  by (simp add: finish_counts_def groupby_sum_Nil)

lemma get_counts_modes:
  "get_counts http class_map ids start_time end_time time_bucket False
     = Some (Inr (Directional rs, sent)) \<Longrightarrow>
   get_counts http class_map ids start_time end_time time_bucket True
     = Some (Inr (finish_counts True rs, sent))"
proof (cases "batch_date_range start_time end_time 7")
  case None
  assume "get_counts http class_map ids start_time end_time time_bucket False
     = Some (Inr (Directional rs, sent))"
  then show ?thesis using None by (simp add: get_counts_def)
next
  case (Some r)
  assume g: "get_counts http class_map ids start_time end_time time_bucket False
     = Some (Inr (Directional rs, sent))"
  show ?thesis
  proof (cases r)
    case (Inl e)
    then show ?thesis using g Some by (simp add: get_counts_def)
  next
    case (Inr date_bs)
    then have b: "batch_date_range start_time end_time 7 = Some (Inr date_bs)"
      using Some by simp
    note d = g[unfolded get_counts_result[OF b, of http class_map ids time_bucket False]]
    have rs: "contributions http (parse_counts class_map)
               (sub_batch_requests ''/countline/counts'' time_bucket (id_batches ids) date_bs) = rs"
      and sent: "sub_batch_requests ''/countline/counts'' time_bucket (id_batches ids) date_bs = sent"
      using d by (auto simp: finish_counts_def)
    show ?thesis
      unfolding get_counts_result[OF b] using rs sent by simp
  qed
qed

lemma groupby_sum_without_keys:
  "(\<And>r. r \<in> set rs \<Longrightarrow> key_of r = None) \<Longrightarrow> groupby_sum rs = []"
proof -
  assume "\<And>r. r \<in> set rs \<Longrightarrow> key_of r = None"
  then have "List.map_filter key_of rs = []"
    by (induction rs) simp_all
  then show ?thesis by (simp add: groupby_sum_def)
qed

text \<open>
  What the aggregation does to the records that were collected. The records that have a
  time stamp, a \<^verbatim>\<open>from\<close> and a \<^verbatim>\<open>to\<close> are grouped by (countline_id, timestamp, from,
  to, class, mode): the output has exactly one record for each key of such a record, in the
  order of the keys, and its count is the sum, in the type of the count column, of the
  counts of the records with that key over the directions. That sum is the sum of the
  integers when all counts and the sum fit in 64 bits. The bidirectional result of
  \<^verbatim>\<open>get_counts\<close> is the aggregation of the records that the directional mode returns.
\<close>

lemma finish_counts_groups:
  "\<exists>ags. finish_counts True rs = Aggregated ags
         \<and> sorted (map agg_key ags)
         \<and> distinct (map agg_key ags)
         \<and> (\<forall>k. k \<in> set (map agg_key ags) \<longleftrightarrow> (\<exists>r \<in> set rs. key_of r = Some k))
         \<and> (\<forall>a \<in> set ags.
               ag_count a
               = column_sum (count_dtype (map cr_count rs))
                   (map cr_count (filter (\<lambda>r. key_of r = Some (agg_key a)) rs)))"
proof (intro exI conjI)
  show "finish_counts True rs = Aggregated (groupby_sum rs)"
    by (rule finish_counts_True)
  show "sorted (map agg_key (groupby_sum rs))"
    by (simp add: groupby_sum_keys)
  show "distinct (map agg_key (groupby_sum rs))"
    by (simp add: groupby_sum_keys)
  show "\<forall>k. k \<in> set (map agg_key (groupby_sum rs)) \<longleftrightarrow> (\<exists>r \<in> set rs. key_of r = Some k)"
    using groupby_sum_key_set by blast
  show "\<forall>a \<in> set (groupby_sum rs).
               ag_count a
               = column_sum (count_dtype (map cr_count rs))
                   (map cr_count (filter (\<lambda>r. key_of r = Some (agg_key a)) rs))"
    using groupby_sum_counts by blast
qed

lemma finish_counts_pair:
  "key_of r1 = Some k \<Longrightarrow> key_of r2 = Some k \<Longrightarrow> cr_count r1 = 3 \<Longrightarrow> cr_count r2 = 5 \<Longrightarrow>
   finish_counts True [r1, r2] = Aggregated [mk_agg k 8]"
proof -
  assume k: "key_of r1 = Some k" "key_of r2 = Some k" and c: "cr_count r1 = 3" "cr_count r2 = 5"
  have "column_sum (count_dtype [3, 5]) [3, 5] = sum_list [3, 5]"
    by (rule column_sum_exact) simp_all
  then have "column_sum (count_dtype [cr_count r1, cr_count r2]) [cr_count r1, cr_count r2] = 8"
    using c by simp
  then show ?thesis
    using groupby_sum_pair[OF k] by (simp add: finish_counts_True)
qed

lemma finish_counts_overflow:
  "key_of r1 = Some k \<Longrightarrow> key_of r2 = Some k \<Longrightarrow> cr_count r1 = 2 ^ 62 \<Longrightarrow> cr_count r2 = 2 ^ 62 \<Longrightarrow>
   finish_counts True [r1, r2] = Aggregated [mk_agg k (- (2 ^ 63))]"
proof -
  assume k: "key_of r1 = Some k" "key_of r2 = Some k"
    and c: "cr_count r1 = 2 ^ 62" "cr_count r2 = 2 ^ 62"
  have "count_dtype [2 ^ 62, 2 ^ 62] = Int64"
    by (simp add: count_dtype_def)
  then have "column_sum (count_dtype [cr_count r1, cr_count r2]) [cr_count r1, cr_count r2]
             = - (2 ^ 63)"
    using c by (simp add: column_sum_def wrap_int64_def)
  then show ?thesis
    using groupby_sum_pair[OF k] by (simp add: finish_counts_True)
qed

lemma finish_counts_without_keys:
  "(\<forall>r \<in> set rs. key_of r = None) \<Longrightarrow> finish_counts True rs = Aggregated []"
  by (simp add: finish_counts_True groupby_sum_without_keys)

lemma key_of_None_iff:
  "key_of r = None \<longleftrightarrow> cr_timestamp r = None \<or> cr_from r = None \<or> cr_to r = None"
  by (simp add: key_of_def split: option.splits)
text \<open>
  Claim C3, at a payload record without time stamps. The server answers with one record of
  countline 101 that has three cars clockwise and five anti-clockwise and neither
  \<^verbatim>\<open>from\<close> nor \<^verbatim>\<open>to\<close>. In directional mode \<^verbatim>\<open>get_counts\<close> returns the two
  directional records, which agree on countline_id, timestamp, from, to, class and mode and
  have the counts 3 and 5. In bidirectional mode the result for the same responses is the
  empty list, and not the one record with the count 8 that sums the two directions:
  \<^verbatim>\<open>groupby\<close> leaves out the rows that have a null in a grouping column. When the
  payload record has its time stamps, the same counts give exactly one record, with the
  count 8 and without a direction.
\<close>

theorem bidirectional_drops_untimed_records:
  "get_counts example_untimed_http example_class_map [''101'']
     (738885 * us_per_day) (738886 * us_per_day) ''1h'' False
   = Some (Inr (Directional example_untimed_records,
                [mk_request ''/countline/counts'' ''1h'' [''101'']
                   \<lparr>batch_from = 738885 * us_per_day, batch_to = 738886 * us_per_day\<rparr>]))
   \<and> cr_count (example_untimed_records ! 0) = 3
   \<and> cr_count (example_untimed_records ! 1) = 5
   \<and> (cr_countline_id (example_untimed_records ! 0), cr_timestamp (example_untimed_records ! 0),
       cr_from (example_untimed_records ! 0), cr_to (example_untimed_records ! 0),
       cr_class (example_untimed_records ! 0), cr_mode (example_untimed_records ! 0))
     = (cr_countline_id (example_untimed_records ! 1), cr_timestamp (example_untimed_records ! 1),
        cr_from (example_untimed_records ! 1), cr_to (example_untimed_records ! 1),
        cr_class (example_untimed_records ! 1), cr_mode (example_untimed_records ! 1))
   \<and> get_counts example_untimed_http example_class_map [''101'']
       (738885 * us_per_day) (738886 * us_per_day) ''1h'' True
     = Some (Inr (Aggregated [],
                  [mk_request ''/countline/counts'' ''1h'' [''101'']
                     \<lparr>batch_from = 738885 * us_per_day, batch_to = 738886 * us_per_day\<rparr>]))
   \<and> get_counts example_counts_http example_class_map [''101'']
        (738885 * us_per_day) (738901 * us_per_day) ''1h'' False
     = Some (Inr (Directional example_records,
                  map (mk_request ''/countline/counts'' ''1h'' [''101'']) example_date_batches))
   \<and> get_counts example_counts_http example_class_map [''101'']
        (738885 * us_per_day) (738901 * us_per_day) ''1h'' True
     = Some (Inr (Aggregated
                    [\<lparr>ag_countline_id = ''101'', ag_timestamp = ''2024-01-01T00:00:00.000Z'',
                      ag_from = ''2024-01-01T00:00:00.000Z'',
                      ag_to = ''2024-01-01T01:00:00.000Z'',
                      ag_class = ''car'', ag_mode = ''car'', ag_count = 8\<rparr>],
                  map (mk_request ''/countline/counts'' ''1h'' [''101'']) example_date_batches))"
proof -
  have a: "get_counts example_untimed_http example_class_map [''101'']
     (738885 * us_per_day) (738886 * us_per_day) ''1h'' False
   = Some (Inr (Directional example_untimed_records,
                [mk_request ''/countline/counts'' ''1h'' [''101'']
                   \<lparr>batch_from = 738885 * us_per_day, batch_to = 738886 * us_per_day\<rparr>]))"
    by code_simp
  have b: "get_counts example_untimed_http example_class_map [''101'']
       (738885 * us_per_day) (738886 * us_per_day) ''1h'' True
     = Some (Inr (Aggregated [],
                  [mk_request ''/countline/counts'' ''1h'' [''101'']
                     \<lparr>batch_from = 738885 * us_per_day, batch_to = 738886 * us_per_day\<rparr>]))"
    by code_simp
  have c: "get_counts example_counts_http example_class_map [''101'']
        (738885 * us_per_day) (738901 * us_per_day) ''1h'' False
     = Some (Inr (Directional example_records,
                  map (mk_request ''/countline/counts'' ''1h'' [''101'']) example_date_batches))"
    by code_simp
  define k where "k = (''101'', ''2024-01-01T00:00:00.000Z'', ''2024-01-01T00:00:00.000Z'',
             ''2024-01-01T01:00:00.000Z'', ''car'', ''car'')"
  have two: "example_records = [example_records ! 0, example_records ! 1]"
    by (simp add: example_records_def)
  have "finish_counts True [example_records ! 0, example_records ! 1] = Aggregated [mk_agg k 8]"
    by (rule finish_counts_pair) (simp_all add: example_records_def key_of_def k_def)
  then have agg: "finish_counts True example_records
      = Aggregated
          [\<lparr>ag_countline_id = ''101'', ag_timestamp = ''2024-01-01T00:00:00.000Z'',
            ag_from = ''2024-01-01T00:00:00.000Z'', ag_to = ''2024-01-01T01:00:00.000Z'',
            ag_class = ''car'', ag_mode = ''car'', ag_count = 8\<rparr>]"
    using two by (simp add: mk_agg_def k_def)
  have d: "get_counts example_counts_http example_class_map [''101'']
        (738885 * us_per_day) (738901 * us_per_day) ''1h'' True
     = Some (Inr (Aggregated
                    [\<lparr>ag_countline_id = ''101'', ag_timestamp = ''2024-01-01T00:00:00.000Z'',
                      ag_from = ''2024-01-01T00:00:00.000Z'',
                      ag_to = ''2024-01-01T01:00:00.000Z'',
                      ag_class = ''car'', ag_mode = ''car'', ag_count = 8\<rparr>],
                  map (mk_request ''/countline/counts'' ''1h'' [''101'']) example_date_batches))"
    using get_counts_modes[OF c] agg by simp
  have e: "cr_count (example_untimed_records ! 0) = 3"
    "cr_count (example_untimed_records ! 1) = 5"
    "(cr_countline_id (example_untimed_records ! 0), cr_timestamp (example_untimed_records ! 0),
       cr_from (example_untimed_records ! 0), cr_to (example_untimed_records ! 0),
       cr_class (example_untimed_records ! 0), cr_mode (example_untimed_records ! 0))
     = (cr_countline_id (example_untimed_records ! 1), cr_timestamp (example_untimed_records ! 1),
        cr_from (example_untimed_records ! 1), cr_to (example_untimed_records ! 1),
        cr_class (example_untimed_records ! 1), cr_mode (example_untimed_records ! 1))"
    by (simp_all add: example_untimed_records_def)
  show ?thesis
    using a e b c d by (intro conjI)
qed
subsection \<open>The speed join\<close>

lemma map_of_tabulate:
  "map_of (map (\<lambda>k. (k, f k)) ks) k = (if k \<in> set ks then Some (f k) else None)"
  by (induction ks) auto

lemma speed_key_iff:
  "speed_key date_of s = Some (sid, d)
   \<longleftrightarrow> sp_countline_id s = sid \<and> speed_date date_of s = Some d"
  by (auto simp: speed_key_def split: option.splits)

lemma speed_daily_lookup:
  "map_of (speed_daily mean date_of srs) (sid, d)
   = (if filter (\<lambda>s. sp_countline_id s = sid \<and> speed_date date_of s = Some d) srs = []
      then None
      else Some (group_mean mean
                   (map sp_p85_speed
                      (filter (\<lambda>s. sp_countline_id s = sid \<and> speed_date date_of s = Some d) srs))))"
proof -
  have mem: "(sid, d) \<in> set (remdups (List.map_filter (speed_key date_of) srs))
        \<longleftrightarrow> filter (\<lambda>s. sp_countline_id s = sid \<and> speed_date date_of s = Some d) srs \<noteq> []"
    by (auto simp: in_map_filter_iff speed_key_iff filter_empty_conv)
  show ?thesis
    unfolding speed_daily_def map_of_tabulate
    using mem by (simp add: speed_key_iff)
qed

lemma standard_row_fields:
  "tr_v85 (standard_row region_name a :: 'v traffic_row) = None"
  by (simp add: standard_row_def)

lemma join_speed_rows:
  assumes none: "\<And>row. row \<in> set df \<Longrightarrow> tr_v85 row = None"
    and mem: "out \<in> set (join_speed mean date_of df srs)"
  shows "(tr_mode out \<noteq> ''car'' \<longrightarrow> tr_v85 out = None)
       \<and> (tr_mode out = ''car'' \<longrightarrow>
            (\<forall>d. date_of (tr_timestamp out) = Some d \<longrightarrow>
                 filter (\<lambda>s. sp_countline_id s = tr_sensor_id out \<and> speed_date date_of s = Some d)
                   srs \<noteq> [] \<longrightarrow>
                 tr_v85 out
                 = group_mean mean
                     (map sp_p85_speed
                        (filter (\<lambda>s. sp_countline_id s = tr_sensor_id out
                                      \<and> speed_date date_of s = Some d) srs))))"
proof -
  obtain row where row: "row \<in> set df"
    and out: "out = (if tr_mode row = ''car''
                     then row\<lparr>tr_v85 := merged_p85 date_of (speed_daily mean date_of srs) row\<rparr>
                     else row)"
    using mem by (auto simp: join_speed_def Let_def)
  show ?thesis
  proof (cases "tr_mode row = ''car''")
    case False
    then show ?thesis using out none[OF row] by simp
  next
    case True
    then have o: "out = row\<lparr>tr_v85 := merged_p85 date_of (speed_daily mean date_of srs) row\<rparr>"
      using out by simp
    show ?thesis
      unfolding o by (simp add: True merged_p85_def speed_daily_lookup)
  qed
qed

lemma fetch_region_traffic_standard:
  "fetch_region_traffic http class_map ids start_time end_time region_name time_bucket b
     = Some (Inr (Standard_frame df, sent)) \<Longrightarrow>
   row \<in> set df \<Longrightarrow> tr_v85 row = None"
proof -
  assume f: "fetch_region_traffic http class_map ids start_time end_time region_name time_bucket b
     = Some (Inr (Standard_frame df, sent))"
    and row: "row \<in> set df"
  obtain counts where "df = map (standard_row region_name) counts"
    using f
    by (auto simp: fetch_region_traffic_def
        split: option.splits sum.splits counts_result.splits if_splits prod.splits)
  then show ?thesis using row by (auto simp: standard_row_fields)
qed

lemma group_mean_all_present:
  "xs \<noteq> [] \<Longrightarrow> group_mean mean (map Some xs) = Some (mean xs)"
proof -
  assume ne: "xs \<noteq> []"
  have "List.map_filter (\<lambda>v. v) (map Some xs) = xs"
    by (induction xs) simp_all
  then show ?thesis using ne by (cases xs) (simp_all add: group_mean_def)
qed

text \<open>
  Claim C9. Whenever \<^verbatim>\<open>fetch_region_traffic_with_speed\<close> returns a frame with rows,
  \<^verbatim>\<open>get_speed\<close> was called with the bucket \<^verbatim>\<open>24h\<close> and returned, and for every row of
  the frame: if the mode is not \<^verbatim>\<open>car\<close>, \<^verbatim>\<open>v85\<close> is null, whatever the speed data
  are; if the mode is \<^verbatim>\<open>car\<close> and there is a speed record of the row's sensor whose day
  is the day of the row's time stamp, \<^verbatim>\<open>v85\<close> is the mean of the 85th percentiles of
  all speed records of that sensor and day, as pandas takes a mean: over the values that are
  not null, and null when there is none. When no value is null that is the mean of all of
  them.
\<close>

theorem v85_only_on_car_rows:
  "(fetch_region_traffic_with_speed counts_http speed_http mean date_of class_map ids
      start_time end_time region_name time_bucket
    = Some (Inr (Standard_frame rows, sent, speed_sent)) \<longrightarrow>
    (\<exists>speed_records.
       get_speed speed_http ids start_time end_time ''24h'' = Some (Inr (speed_records, speed_sent))
       \<and> (\<forall>row \<in> set rows.
            (tr_mode row \<noteq> ''car'' \<longrightarrow> tr_v85 row = None)
          \<and> (tr_mode row = ''car'' \<longrightarrow>
               (\<forall>d. date_of (tr_timestamp row) = Some d \<longrightarrow>
                    filter (\<lambda>s. sp_countline_id s = tr_sensor_id row
                                  \<and> speed_date date_of s = Some d) speed_records \<noteq> [] \<longrightarrow>
                    tr_v85 row
                    = group_mean mean
                        (map sp_p85_speed
                           (filter (\<lambda>s. sp_countline_id s = tr_sensor_id row
                                         \<and> speed_date date_of s = Some d) speed_records)))))))
   \<and> (xs \<noteq> [] \<longrightarrow> group_mean mean (map Some xs) = Some (mean xs))"
proof (intro conjI impI)
  assume run: "fetch_region_traffic_with_speed counts_http speed_http mean date_of class_map ids
      start_time end_time region_name time_bucket
    = Some (Inr (Standard_frame rows, sent, speed_sent))"
  let ?ft = "fetch_region_traffic counts_http class_map ids start_time end_time
      region_name time_bucket True :: (py_error + 'a traffic_frame \<times> request list) option"
  let ?gs = "get_speed speed_http ids start_time end_time ''24h''"
  note run' = run[unfolded fetch_region_traffic_with_speed_def]
  obtain p where ftp: "?ft = Some (Inr p)"
  proof (cases ?ft)
    case None
    then show ?thesis using run' by simp
  next
    case (Some r)
    then show ?thesis using run' that by (cases r) simp_all
  qed
  obtain frame sent' where p: "p = (frame, sent')" by (cases p)
  note run2 = run'[unfolded ftp p, simplified]
  obtain df where frame: "frame = Standard_frame df"
    using run2 by (cases frame) simp_all
  have sent': "sent' = sent"
    using run2 unfolding frame by (auto split: option.splits sum.splits prod.splits)
  have ft: "?ft = Some (Inr (Standard_frame df, sent))"
    by (simp add: ftp p frame sent')
  obtain q where gsq: "?gs = Some (Inr q)"
  proof (cases ?gs)
    case None
    then show ?thesis using run2 unfolding frame by simp
  next
    case (Some r)
    then show ?thesis using run2 that unfolding frame by (cases r) simp_all
  qed
  obtain speed_records ss where q: "q = (speed_records, ss)" by (cases q)
  have gs: "?gs = Some (Inr (speed_records, speed_sent))"
    and rows: "rows = (if speed_records \<noteq> [] then join_speed mean date_of df speed_records else df)"
    using run2 unfolding frame gsq q by auto
  have none: "\<And>row. row \<in> set df \<Longrightarrow> tr_v85 row = None"
    using fetch_region_traffic_standard[OF ft] .
  have each: "(tr_mode row \<noteq> ''car'' \<longrightarrow> tr_v85 row = None)
          \<and> (tr_mode row = ''car'' \<longrightarrow>
               (\<forall>d. date_of (tr_timestamp row) = Some d \<longrightarrow>
                    filter (\<lambda>s. sp_countline_id s = tr_sensor_id row
                                  \<and> speed_date date_of s = Some d) speed_records \<noteq> [] \<longrightarrow>
                    tr_v85 row
                    = group_mean mean
                        (map sp_p85_speed
                           (filter (\<lambda>s. sp_countline_id s = tr_sensor_id row
                                         \<and> speed_date date_of s = Some d) speed_records))))"
    if r: "row \<in> set rows" for row
  proof (cases "speed_records = []")
    case True
    then have "row \<in> set df" using r rows by simp
    then show ?thesis using none True by simp
  next
    case False
    then have "row \<in> set (join_speed mean date_of df speed_records)"
      using r rows by simp
    then show ?thesis
      using none by (rule join_speed_rows[rotated])
  qed
  have all: "\<forall>row \<in> set rows.
            (tr_mode row \<noteq> ''car'' \<longrightarrow> tr_v85 row = None)
          \<and> (tr_mode row = ''car'' \<longrightarrow>
               (\<forall>d. date_of (tr_timestamp row) = Some d \<longrightarrow>
                    filter (\<lambda>s. sp_countline_id s = tr_sensor_id row
                                  \<and> speed_date date_of s = Some d) speed_records \<noteq> [] \<longrightarrow>
                    tr_v85 row
                    = group_mean mean
                        (map sp_p85_speed
                           (filter (\<lambda>s. sp_countline_id s = tr_sensor_id row
                                         \<and> speed_date date_of s = Some d) speed_records))))"
    by (rule ballI) (rule each)
  show "\<exists>speed_records.
       get_speed speed_http ids start_time end_time ''24h'' = Some (Inr (speed_records, speed_sent))
       \<and> (\<forall>row \<in> set rows.
            (tr_mode row \<noteq> ''car'' \<longrightarrow> tr_v85 row = None)
          \<and> (tr_mode row = ''car'' \<longrightarrow>
               (\<forall>d. date_of (tr_timestamp row) = Some d \<longrightarrow>
                    filter (\<lambda>s. sp_countline_id s = tr_sensor_id row
                                  \<and> speed_date date_of s = Some d) speed_records \<noteq> [] \<longrightarrow>
                    tr_v85 row
                    = group_mean mean
                        (map sp_p85_speed
                           (filter (\<lambda>s. sp_countline_id s = tr_sensor_id row
                                         \<and> speed_date date_of s = Some d) speed_records)))))"
    by (rule exI[of _ speed_records], rule conjI, rule gs, rule all)
next
  assume "xs \<noteq> []"
  then show "group_mean mean (map Some xs) = Some (mean xs)"
    by (rule group_mean_all_present)
qed


text \<open>
  Countline 101 on 2024-01-01: the speed server has two entries of that day with the 85th
  percentiles 30 and 40, so the car row gets 35 and the bike row stays null.
\<close>

theorem v85_only_on_car_rows_witness:
  "fetch_region_traffic_with_speed example_mixed_http example_speed_http example_mean
     example_date_of example_class_map [''101''] (738885 * us_per_day) (738886 * us_per_day)
     ''leeds'' ''1h''
   = Some (Inr (Standard_frame
                  [\<lparr>tr_timestamp = ''2024-01-01T00:00:00.000Z'', tr_sensor_id = ''101'',
                    tr_mode = ''car'', tr_count = 8, tr_v85 = Some 35, tr_region = ''leeds'',
                    tr_source = ''vivacity''\<rparr>,
                   \<lparr>tr_timestamp = ''2024-01-01T00:00:00.000Z'', tr_sensor_id = ''101'',
                    tr_mode = ''bike'', tr_count = 2, tr_v85 = None, tr_region = ''leeds'',
                    tr_source = ''vivacity''\<rparr>],
                [mk_request ''/countline/counts'' ''1h'' [''101'']
                   \<lparr>batch_from = 738885 * us_per_day, batch_to = 738886 * us_per_day\<rparr>],
                [mk_request ''/countline/speed'' ''24h'' [''101'']
                   \<lparr>batch_from = 738885 * us_per_day, batch_to = 738886 * us_per_day\<rparr>]))
   \<and> (\<exists>speed_records.
        get_speed example_speed_http [''101''] (738885 * us_per_day) (738886 * us_per_day) ''24h''
        = Some (Inr (speed_records,
                     [mk_request ''/countline/speed'' ''24h'' [''101'']
                        \<lparr>batch_from = 738885 * us_per_day, batch_to = 738886 * us_per_day\<rparr>]))
        \<and> map sp_p85_speed speed_records = [Some 30, Some 40]
        \<and> map (speed_date example_date_of) speed_records
          = [Some ''2024-01-01'', Some ''2024-01-01''])
   \<and> group_mean example_mean (map Some [30, 40]) = Some 35"
proof -
  let ?rq = "[mk_request ''/countline/speed'' ''24h'' [''101'']
                \<lparr>batch_from = 738885 * us_per_day, batch_to = 738886 * us_per_day\<rparr>]"
  have run: "fetch_region_traffic_with_speed example_mixed_http example_speed_http example_mean
     example_date_of example_class_map [''101''] (738885 * us_per_day) (738886 * us_per_day)
     ''leeds'' ''1h''
   = Some (Inr (Standard_frame
                  [\<lparr>tr_timestamp = ''2024-01-01T00:00:00.000Z'', tr_sensor_id = ''101'',
                    tr_mode = ''car'', tr_count = 8, tr_v85 = Some 35, tr_region = ''leeds'',
                    tr_source = ''vivacity''\<rparr>,
                   \<lparr>tr_timestamp = ''2024-01-01T00:00:00.000Z'', tr_sensor_id = ''101'',
                    tr_mode = ''bike'', tr_count = 2, tr_v85 = None, tr_region = ''leeds'',
                    tr_source = ''vivacity''\<rparr>],
                [mk_request ''/countline/counts'' ''1h'' [''101'']
                   \<lparr>batch_from = 738885 * us_per_day, batch_to = 738886 * us_per_day\<rparr>],
                ?rq))"
    by code_simp
  note t = v85_only_on_car_rows[where xs = "[30, 40]" and mean = example_mean]
  from t[THEN conjunct1, THEN mp, OF run]
  obtain speed_records where
    gs: "get_speed example_speed_http [''101''] (738885 * us_per_day) (738886 * us_per_day) ''24h''
         = Some (Inr (speed_records, ?rq))"
    by blast
  have p: "map sp_p85_speed (fst (projr (the (get_speed example_speed_http [''101'']
             (738885 * us_per_day) (738886 * us_per_day) ''24h'')))) = [Some 30, Some 40]"
    by code_simp
  have d: "map (speed_date example_date_of) (fst (projr (the (get_speed example_speed_http [''101'']
             (738885 * us_per_day) (738886 * us_per_day) ''24h''))))
           = [Some ''2024-01-01'', Some ''2024-01-01'']"
    by code_simp
  have m: "example_mean [30, 40] = 35"
    by (simp add: example_mean_def)
  have g: "group_mean example_mean (map Some [30, 40]) = Some 35"
    using t[THEN conjunct2] m by simp
  have ex: "\<exists>speed_records.
        get_speed example_speed_http [''101''] (738885 * us_per_day) (738886 * us_per_day) ''24h''
        = Some (Inr (speed_records, ?rq))
        \<and> map sp_p85_speed speed_records = [Some 30, Some 40]
        \<and> map (speed_date example_date_of) speed_records
          = [Some ''2024-01-01'', Some ''2024-01-01'']"
    using gs p d by (intro exI[of _ speed_records]) simp
  show ?thesis
    using run ex g by (intro conjI)
qed

end
